theory Spec2Isabelle
  imports Complex_Main
begin

section \<open>soapy\_power: the sweep pipeline of \<open>soapypower/power.py\<close>\<close>

text \<open>
  The embedding follows \<open>class SoapyPower\<close>. Python floats are idealised as
  \<^typ>\<open>real\<close>, Python integers are \<^typ>\<open>int\<close>, and every exception the source
  can raise on the modelled paths is a value of \<open>error\<close>; \<open>OSError\<close> is what
  \<open>sendto\<close> raises, and \<open>PrintError\<close> stands for whatever \<open>print\<close> raises when the
  standard output cannot be written. Logging calls are left out except where formatting
  their arguments can raise.
\<close>

datatype error =
  ZeroDivisionError | ValueError | IndexError | KeyError | UnboundLocalError | OSError
  | PrintError

subsection \<open>Python numerics\<close>

text \<open>\<open>round(x)\<close> with one argument: nearest integer, ties to the even one.\<close>

definition py_round :: "real \<Rightarrow> int" where
  "py_round x =
     (let f = \<lfloor>x\<rfloor>; d = x - of_int f
      in if d < 1 / 2 then f else if d > 1 / 2 then f + 1
         else if even f then f else f + 1)"

text \<open>\<open>int(x)\<close> on a float truncates toward zero.\<close>

definition py_int :: "real \<Rightarrow> int" where
  "py_int x = (if x \<ge> 0 then \<lfloor>x\<rfloor> else \<lceil>x\<rceil>)"

text \<open>\<open>math.ceil(a / b)\<close> on two integers (true division, then ceiling).\<close>

definition ceil_quot :: "int \<Rightarrow> int \<Rightarrow> int" where
  "ceil_quot a b = \<lceil>real_of_int a / real_of_int b\<rceil>"

subsection \<open>Hop planner: \<open>nearest_freq\<close>, \<open>bins_to_bin_size\<close>, \<open>freq_plan\<close>\<close>

definition nearest_freq :: "real \<Rightarrow> real \<Rightarrow> real" where
  "nearest_freq freq bin_size = of_int (py_round (freq / bin_size)) * bin_size"

definition bins_to_bin_size :: "real \<Rightarrow> int \<Rightarrow> real" where
  "bins_to_bin_size sample_rate bins = sample_rate / of_int bins"

text \<open>
  \<open>hop_size\<close> as \<open>freq_plan\<close> computes it, and the test \<open>hopping\<close>.
\<close>

definition hop_size :: "real \<Rightarrow> int \<Rightarrow> real \<Rightarrow> real" where
  "hop_size sample_rate bins overlap =
     nearest_freq ((1 - overlap) * sample_rate) (bins_to_bin_size sample_rate bins)"

definition hopping :: "real \<Rightarrow> real \<Rightarrow> real \<Rightarrow> real \<Rightarrow> bool" where
  "hopping sample_rate min_freq max_freq overlap =
     (max_freq - min_freq \<ge> (1 - overlap) * sample_rate)"

text \<open>
  \<open>freq_plan(min_freq, max_freq, bins, overlap)\<close>; the first argument is
  \<open>self.device.sample_rate\<close>. The three divisions of the source raise on a zero
  divisor: \<open>sample_rate / bins\<close>, \<open>freq / bin_size\<close> and \<open>freq_range / hop_size\<close>
  (the last one only when hopping). \<open>range(hops)\<close> is empty for \<open>hops \<le> 0\<close>.
\<close>

definition freq_plan :: "real \<Rightarrow> real \<Rightarrow> real \<Rightarrow> int \<Rightarrow> real \<Rightarrow> error + real list" where
  "freq_plan sample_rate min_freq max_freq bins overlap =
     (if bins = 0 then Inl ZeroDivisionError
      else let bin_size = bins_to_bin_size sample_rate bins;
               sample_rate_crop = (1 - overlap) * sample_rate;
               freq_range = max_freq - min_freq;
               hop = (freq_range \<ge> sample_rate_crop)
           in if bin_size = 0 then Inl ZeroDivisionError
              else let hsize = nearest_freq sample_rate_crop bin_size
                   in if hop \<and> hsize = 0 then Inl ZeroDivisionError
                      else let hops = (if hop then \<lceil>freq_range / hsize\<rceil> else 1);
                               min_center_freq =
                                 (if hop then min_freq + hsize / 2
                                  else min_freq + freq_range / 2)
                           in Inr (map (\<lambda>i. min_center_freq + of_int i * hsize)
                                    [0..hops - 1]))"

subsection \<open>Buffer sizer: \<open>create_buffer\<close>\<close>

text \<open>
  The limit that \<open>create_buffer\<close> applies: a zero \<open>max_buffer_size\<close> is replaced by
  \<open>(100 * 1024**2) / 8\<close> samples; a positive limit is rounded up to a multiple of
  \<open>base_buffer_size\<close>; a negative one is left as it is and never applied.
\<close>

definition default_max_buffer_size :: int where
  "default_max_buffer_size = (100 * 1024\<^sup>2) div 8"

definition effective_max :: "int \<Rightarrow> int" where
  "effective_max max_buffer_size =
     (if max_buffer_size = 0 then default_max_buffer_size else max_buffer_size)"

definition aligned_max :: "int \<Rightarrow> int \<Rightarrow> int" where
  "aligned_max base_buffer_size max_buffer_size =
     ceil_quot (effective_max max_buffer_size) base_buffer_size * base_buffer_size"

definition required_size :: "int \<Rightarrow> int \<Rightarrow> int \<Rightarrow> int" where
  "required_size bins repeats base_buffer_size =
     ceil_quot (bins * repeats) base_buffer_size * base_buffer_size"

definition clamped :: "int \<Rightarrow> int \<Rightarrow> int \<Rightarrow> int \<Rightarrow> bool" where
  "clamped bins repeats base_buffer_size max_buffer_size =
     (effective_max max_buffer_size > 0 \<and>
      required_size bins repeats base_buffer_size
        > aligned_max base_buffer_size max_buffer_size)"

text \<open>
  \<open>create_buffer(bins, repeats, base_buffer_size, max_buffer_size)\<close> returns
  \<open>(buffer_repeats, zeros(buffer_size))\<close>; the buffer is represented by its length.
  The first argument is \<open>self.device.sample_rate\<close>, which the log lines divide by, as
  they divide by \<open>bins\<close>; \<open>zeros\<close> refuses a negative length.
\<close>

definition create_buffer :: "real \<Rightarrow> int \<Rightarrow> int \<Rightarrow> int \<Rightarrow> int \<Rightarrow> error + (int \<times> int)" where
  "create_buffer sample_rate bins repeats base_buffer_size max_buffer_size =
     (if base_buffer_size = 0 then Inl ZeroDivisionError
      else let buffer_size = required_size bins repeats base_buffer_size;
               amax = aligned_max base_buffer_size max_buffer_size;
               clamp = clamped bins repeats base_buffer_size max_buffer_size
           in if clamp \<and> amax = 0 then Inl ZeroDivisionError
              else let buffer_repeats = (if clamp then ceil_quot buffer_size amax else 1);
                       buffer_size = (if clamp then amax else buffer_size)
                   in if sample_rate = 0 \<or> bins = 0 then Inl ZeroDivisionError
                      else if buffer_size < 0 then Inl ValueError
                      else Inr (buffer_repeats, buffer_size))"

subsection \<open>Burst detector: the body of the acquisition loop of \<open>psd\<close>\<close>

text \<open>
  A buffer is a list of \<open>complex64\<close> samples. \<open>iq = buffer.real + buffer.imag\<close>.
\<close>

definition iq_of :: "complex list \<Rightarrow> real list" where
  "iq_of buffer = map (\<lambda>s. Re s + Im s) buffer"

definition np_mean :: "real list \<Rightarrow> real" where
  "np_mean xs = sum_list xs / of_nat (length xs)"

text \<open>\<open>numpy.max\<close> of a non-empty array, given as head and tail.\<close>

definition np_max :: "real \<Rightarrow> real list \<Rightarrow> real" where
  "np_max x xs = fold max xs x"

text \<open>
  Slicing \<open>xs[i:j]\<close> with Python's treatment of negative and out-of-range bounds.
\<close>

definition py_bound :: "nat \<Rightarrow> int \<Rightarrow> nat" where
  "py_bound n i = (if i < 0 then nat (max (int n + i) 0) else min (nat i) n)"

definition py_slice :: "'a list \<Rightarrow> int \<Rightarrow> int \<Rightarrow> 'a list" where
  "py_slice xs i j =
     (let a = py_bound (length xs) i; b = py_bound (length xs) j
      in take (b - a) (drop a xs))"

text \<open>
  \<open>absThreshold = (10 ** (self.threshold/10)) * self.scale\<close> with \<open>scale = 2 ** 31\<close>.
\<close>

definition initial_threshold :: "real \<Rightarrow> real" where
  "initial_threshold threshold = 10 powr (threshold / 10) * 2 ^ 31"

text \<open>
  The dynamic threshold: \<open>noise = abs(numpy.mean(iq[:100]))\<close>, and
  \<open>if noise < absThreshold: absThreshold = noise * 100\<close>. On an empty array the mean
  is \<open>nan\<close>, which compares false.
\<close>

definition noise_of :: "real list \<Rightarrow> real" where
  "noise_of iq = \<bar>np_mean (take 100 iq)\<bar>"

definition update_threshold :: "real \<Rightarrow> real list \<Rightarrow> real" where
  "update_threshold absThreshold iq =
     (if iq = [] then absThreshold
      else let noise = noise_of iq
           in if noise < absThreshold then noise * 100 else absThreshold)"

text \<open>\<open>burst = numpy.where(numpy.abs(iq) > absThreshold)[0]\<close>\<close>

definition burst_idx :: "real \<Rightarrow> real list \<Rightarrow> int list" where
  "burst_idx absThreshold iq =
     map int (filter (\<lambda>i. \<bar>iq ! i\<bar> > absThreshold) [0..<length iq])"

text \<open>
  The loop \<open>for stop in burst\<close>: it leaves with \<open>stop = laststop\<close> at the first
  \<open>delta > minBurst\<close>; when it runs to the end, \<open>stop\<close> is the last element, which
  is \<open>laststop\<close> too.
\<close>

fun scan_stop :: "int \<Rightarrow> int \<Rightarrow> int list \<Rightarrow> int" where
  "scan_stop minBurst laststop [] = laststop"
| "scan_stop minBurst laststop (stop # rest) =
     (if stop - laststop > minBurst then laststop
      else scan_stop minBurst stop rest)"

record burst =
  b_start :: int
  b_stop :: int
  b_safestart :: int
  b_safestop :: int

text \<open>
  Lines 291 to 317: the test \<open>numpy.max(iq) > absThreshold\<close> (which raises on an empty
  array), \<open>start = burst[0]\<close>, the scan for \<open>stop\<close>, the test
  \<open>stop - start > minBurst\<close> and the safe window.
\<close>

definition detect :: "int \<Rightarrow> real \<Rightarrow> real list \<Rightarrow> error + burst option" where
  "detect minBurst absThreshold iq =
     (case iq of
        [] \<Rightarrow> Inl ValueError
      | x # xs \<Rightarrow>
          if np_max x xs > absThreshold then
            (case burst_idx absThreshold iq of
               [] \<Rightarrow> Inl IndexError
             | start # _ \<Rightarrow>
                 let stop = scan_stop minBurst start (burst_idx absThreshold iq)
                 in if stop - start > minBurst then
                      let safestart = (if start > minBurst then start - minBurst else 0);
                          safestop = int (length iq) - 1;
                          safestop = (if safestop - stop > minBurst then stop + minBurst
                                      else safestop)
                      in Inr (Some \<lparr>b_start = start, b_stop = stop,
                                    b_safestart = safestart, b_safestop = safestop\<rparr>)
                    else Inr None)
          else Inr None)"

text \<open>
  The dictionary \<open>signal\<close>. It starts as
  \<open>{"start": -1, "stop": 0, "samples": 0, "duration": 0}\<close>; the other keys are absent
  until a burst is stored.
\<close>

record signal =
  sig_start :: int
  sig_stop :: int
  sig_samples :: int
  sig_duration :: real
  sig_freq :: "real option"
  sig_td_array :: "real list option"
  sig_reportTime :: "real option"
  sig_rate :: "real option"

definition initial_signal :: signal where
  "initial_signal =
     \<lparr>sig_start = -1, sig_stop = 0, sig_samples = 0, sig_duration = 0,
      sig_freq = None, sig_td_array = None, sig_reportTime = None, sig_rate = None\<rparr>"

text \<open>Lines 319 to 326: the assignments that store a burst, over whatever was stored.\<close>

definition store_burst ::
  "real \<Rightarrow> real \<Rightarrow> real \<Rightarrow> real list \<Rightarrow> burst \<Rightarrow> signal \<Rightarrow> signal" where
  "store_burst freq sample_rate acq_time_start iq b sg =
     sg\<lparr>sig_freq := Some freq,
        sig_start := b_start b,
        sig_stop := b_stop b,
        sig_samples := b_stop b - b_start b,
        sig_duration := of_int (b_stop b - b_start b) / sample_rate,
        sig_td_array := Some (map abs (py_slice iq (b_safestart b) (b_safestop b))),
        sig_reportTime := Some acq_time_start,
        sig_rate := Some sample_rate\<rparr>"

text \<open>
  The state of one call of \<open>psd\<close>: the local \<open>absThreshold\<close>, the dictionary
  \<open>signal\<close>, and \<open>psd_state\<close> as the list of sample blocks handed to
  \<open>update_async\<close> so far.
\<close>

record hop_state =
  h_absThreshold :: real
  h_signal :: signal
  h_psd_state :: "complex list list"

text \<open>
  One pass of the loop body (lines 282 to 329) on the buffer that was just read.
\<close>

definition acquire ::
  "int \<Rightarrow> real \<Rightarrow> real \<Rightarrow> real \<Rightarrow> complex list \<Rightarrow> hop_state \<Rightarrow> error + hop_state" where
  "acquire minBurst freq sample_rate acq_time_start buffer h =
     (let iq = iq_of buffer;
          thr = update_threshold (h_absThreshold h) iq
      in case detect minBurst thr iq of
           Inl e \<Rightarrow> Inl e
         | Inr None \<Rightarrow> Inr (h\<lparr>h_absThreshold := thr\<rparr>)
         | Inr (Some b) \<Rightarrow>
             Inr \<lparr>h_absThreshold = thr,
                  h_signal = store_burst freq sample_rate acq_time_start iq b (h_signal h),
                  h_psd_state = h_psd_state h @ [py_slice buffer (b_start b) (b_stop b)]\<rparr>)"

subsection \<open>Measurement reducer: \<open>measurements\<close>\<close>

text \<open>
  The record holds the arguments of the format string, in the order of the JSON keys;
  the rounding that \<open>%.3f\<close>, \<open>%d\<close> and \<open>%.1f\<close> apply when printing is not
  modelled.
\<close>

record measurement =
  reportTime :: real
  frequencyMHz :: real
  bandwidthKHz :: real
  psd_bins :: "int list"
  spanMHz :: "real \<times> real"
  durationMs :: real
  rssidBm :: real

text \<open>\<open>numpy.argmax\<close>: the first index of the largest element, by a linear scan.\<close>

fun argmax_from :: "real \<Rightarrow> nat \<Rightarrow> nat \<Rightarrow> real list \<Rightarrow> nat" where
  "argmax_from best besti i [] = besti"
| "argmax_from best besti i (x # xs) =
     (if x > best then argmax_from x i (Suc i) xs
      else argmax_from best besti (Suc i) xs)"

definition argmax :: "real list \<Rightarrow> nat" where
  "argmax xs = argmax_from (hd xs) 0 1 (tl xs)"

text \<open>
  \<open>measurements(psd_data_or_future, samples, signal)\<close>, given the power array that the
  future resolves to; \<open>samples\<close> is not used by the source. The arguments are
  \<open>self.threshold\<close>, \<open>self.device.sample_rate\<close>, \<open>pwr_array\<close> and \<open>signal\<close>.
  \<open>numpy.argmax\<close> raises on an empty array and the bare \<open>except\<close> returns nothing.
  \<open>self.plotting\<close> is off, as by default, so that no figure is drawn.
\<close>

definition measurements ::
  "real \<Rightarrow> real \<Rightarrow> real list \<Rightarrow> signal \<Rightarrow> error + measurement option" where
  "measurements threshold sample_rate pwr_array sg =
     (if pwr_array = [] then Inr None
      else let peak = argmax pwr_array;
               rssi = pwr_array ! peak
           in if rssi < threshold then Inr None
              else let halfPower = rssi - 3;
                       edges = map int (filter (\<lambda>i. pwr_array ! i > halfPower)
                                          [0..<length pwr_array])
                   in case edges of
                        [] \<Rightarrow> Inl IndexError
                      | leftEdge # _ \<Rightarrow>
                          (let rightEdge = last edges
                           in case (sig_rate sg, sig_freq sg, sig_reportTime sg) of
                                (Some rate, Some freq, Some rtime) \<Rightarrow>
                                  let resolution = rate / of_nat (length pwr_array);
                                      leftFreq = freq - sample_rate / 2;
                                      rightFreq = freq + sample_rate / 2;
                                      bandwidth = resolution * of_int (rightEdge - leftEdge);
                                      midpoint = of_nat (length pwr_array) / 2;
                                      centreFreq = of_int (leftEdge + rightEdge) / 2;
                                      offset =
                                        (if centreFreq \<le> midpoint
                                         then (resolution * (midpoint - centreFreq)) * - 1
                                         else resolution * (centreFreq - midpoint));
                                      psd = map py_int pwr_array;
                                      freq = freq + offset
                                  in Inr (Some \<lparr>reportTime = rtime,
                                                frequencyMHz = freq / 1000000,
                                                bandwidthKHz = bandwidth / 1000,
                                                psd_bins = psd,
                                                spanMHz = (leftFreq / 1000000, rightFreq / 1000000),
                                                durationMs = sig_duration sg * 1000,
                                                rssidBm = rssi\<rparr>)
                              | _ \<Rightarrow> Inl KeyError))"

subsection \<open>Sweep controller: \<open>psd\<close> and \<open>sweep\<close>\<close>

text \<open>
  What the program reads from outside is a function of the program point at which it
  reads it. A program point is the value of a counter \<open>clock\<close> that advances by one
  at every event below; Python runs a signal handler between two instructions of the
  main thread, so the flag \<open>_shutdown\<close> changes between two program points.
  \<^item> \<open>read_stream_into_buffer\<close>: the content of \<open>self._buffer\<close> after the read;
  \<^item> \<open>utcnow\<close>: the wall clock;
  \<^item> \<open>shutdown\<close>: the value of the global \<open>_shutdown\<close>;
  \<^item> \<open>psd_result\<close>: the power array that the future of \<open>result_async\<close> resolves to,
    from the centre frequency and the blocks handed to \<open>update_async\<close> (the PSD
    engine is not part of these sources);
  \<^item> \<open>sendto_ok\<close>: whether \<open>self.sock.sendto\<close> returns rather than raises;
  \<^item> \<open>print_ok\<close>: whether \<open>print(self.count, json)\<close> returns rather than raises;
  \<^item> \<open>time_exceeded\<close>: whether \<open>time.time() - t_start >= time_limit\<close>;
  \<^item> \<open>base_buffer_len\<close>: the length of the buffer that \<open>start_stream\<close> returns.
\<close>

record env =
  read_stream_into_buffer :: "nat \<Rightarrow> complex list"
  utcnow :: "nat \<Rightarrow> real"
  shutdown :: "nat \<Rightarrow> bool"
  psd_result :: "real \<Rightarrow> complex list list \<Rightarrow> real list"
  sendto_ok :: "nat \<Rightarrow> bool"
  print_ok :: "nat \<Rightarrow> bool"
  time_exceeded :: "nat \<Rightarrow> bool"
  base_buffer_len :: int

text \<open>
  The events: a read of \<open>_shutdown\<close> with the value read; \<open>run += 1\<close>; a call of
  \<open>psd\<close> with its frequency; a read into the buffer with its repeat number; a
  \<open>sendto\<close> that returned, with \<open>self.count\<close> and the record; a \<open>sendto\<close> that
  raised; the call of \<open>stop\<close>.
\<close>

datatype event =
  is_Poll: Poll bool
  | is_RunStart: RunStart nat
  | is_Hop: Hop real
  | is_Acquire: Acquire nat
  | is_Sent: Sent nat measurement
  | is_SendFailed: SendFailed
  | is_Stop: Stop

text \<open>
  The state of the program: the counter of program points, the events so far with the
  point at which each happened, and \<open>self.count\<close>.
\<close>

record world =
  clock :: nat
  trace :: "(nat \<times> event) list"
  count :: nat

definition initial_world :: world where
  "initial_world = \<lparr>clock = 0, trace = [], count = 0\<rparr>"

definition tick :: "event \<Rightarrow> world \<Rightarrow> world" where
  "tick e w = w\<lparr>clock := Suc (clock w), trace := trace w @ [(clock w, e)]\<rparr>"

text \<open>The attributes of \<open>self\<close> that \<open>psd\<close> and \<open>measurements\<close> read.\<close>

record soapy =
  sp_sample_rate :: real
  sp_threshold :: real
  sp_buffer_repeats :: nat

text \<open>
  The loop \<open>for repeat in range(self._buffer_repeats)\<close> of \<open>psd\<close>, from repeat
  number \<open>repeat\<close> with \<open>n\<close> repeats to go: read the buffer, run the loop body, then
  \<open>if _shutdown: break\<close>.
\<close>

fun psd_repeats ::
  "env \<Rightarrow> soapy \<Rightarrow> real \<Rightarrow> int \<Rightarrow> nat \<Rightarrow> nat \<Rightarrow> hop_state \<Rightarrow> world
     \<Rightarrow> (error \<times> world) + (hop_state \<times> world)" where
  "psd_repeats ev sp freq minBurst repeat 0 h w = Inr (h, w)"
| "psd_repeats ev sp freq minBurst repeat (Suc n) h w =
     (let acq_time_start = utcnow ev (clock w);
          buffer = read_stream_into_buffer ev (clock w);
          w1 = tick (Acquire repeat) w
      in case acquire minBurst freq (sp_sample_rate sp) acq_time_start buffer h of
           Inl e \<Rightarrow> Inl (e, w1)
         | Inr h1 \<Rightarrow>
             let flag = shutdown ev (clock w1);
                 w2 = tick (Poll flag) w1
             in if flag then Inr (h1, w2)
                else psd_repeats ev sp freq minBurst (Suc repeat) n h1 w2)"

text \<open>
  \<open>psd(freq)\<close>. The stream runs from \<open>setup\<close> to \<open>stop\<close>, so the test
  \<open>is_streaming\<close> passes. Tuning the device, and the tune delay that reads and drops
  samples until the wall clock has advanced by \<open>tune_delay\<close>, are the event \<open>Hop\<close>.
  With no repeat at all, \<open>t_final\<close> is unbound where the hop time is logged. The result
  is the list of blocks behind \<open>psd_future\<close>, and \<open>signal\<close>; the two acquisition
  times that \<open>psd\<close> also returns are not used by \<open>sweep\<close>.
\<close>

definition psd ::
  "env \<Rightarrow> soapy \<Rightarrow> real \<Rightarrow> world
     \<Rightarrow> (error \<times> world) + ((complex list list \<times> signal) \<times> world)" where
  "psd ev sp freq w =
     (let w0 = tick (Hop freq) w;
          minBurst = py_int (0.000005 * sp_sample_rate sp);
          h0 = \<lparr>h_absThreshold = initial_threshold (sp_threshold sp),
                h_signal = initial_signal, h_psd_state = []\<rparr>
      in case psd_repeats ev sp freq minBurst 0 (sp_buffer_repeats sp) h0 w0 of
           Inl x \<Rightarrow> Inl x
         | Inr (h, w1) \<Rightarrow>
             if sp_buffer_repeats sp = 0 then Inl (UnboundLocalError, w1)
             else Inr ((h_psd_state h, h_signal h), w1))"

text \<open>
  The body of \<open>for freq in freq_list\<close> up to the test of \<open>_shutdown\<close>: \<open>psd\<close>, then
  for a stored burst \<open>measurements\<close> and, for a record, \<open>sendto\<close>, then
  \<open>print(self.count, json)\<close>, then \<open>self.count += 1\<close>. Neither \<open>sendto\<close> nor
  \<open>print\<close> is inside a \<open>try\<close> with an \<open>except\<close>: when \<open>print\<close> raises, the
  datagram has been sent and \<open>self.count\<close> is not advanced.
\<close>

definition sweep_hop :: "env \<Rightarrow> soapy \<Rightarrow> real \<Rightarrow> world \<Rightarrow> (error \<times> world) + world" where
  "sweep_hop ev sp freq w =
     (case psd ev sp freq w of
        Inl x \<Rightarrow> Inl x
      | Inr ((blocks, sg), w1) \<Rightarrow>
          if sig_start sg > - 1 then
            (case measurements (sp_threshold sp) (sp_sample_rate sp)
                    (psd_result ev freq blocks) sg of
               Inl e \<Rightarrow> Inl (e, w1)
             | Inr None \<Rightarrow> Inr w1
             | Inr (Some json) \<Rightarrow>
                 if sendto_ok ev (clock w1)
                 then (let w2 = tick (Sent (count w1) json) w1
                       in if print_ok ev (clock w2)
                          then Inr (w2\<lparr>count := Suc (count w1)\<rparr>)
                          else Inl (PrintError, w2))
                 else Inl (OSError, tick SendFailed w1))
          else Inr w1)"

fun sweep_hops :: "env \<Rightarrow> soapy \<Rightarrow> real list \<Rightarrow> world \<Rightarrow> (error \<times> world) + world" where
  "sweep_hops ev sp [] w = Inr w"
| "sweep_hops ev sp (freq # rest) w =
     (case sweep_hop ev sp freq w of
        Inl x \<Rightarrow> Inl x
      | Inr w1 \<Rightarrow>
          let flag = shutdown ev (clock w1);
              w2 = tick (Poll flag) w1
          in if flag then Inr w2 else sweep_hops ev sp rest w2)"

text \<open>
  The loop \<open>while not _shutdown and (runs == 0 or run < runs)\<close>. It need not end, so
  it runs on fuel: one unit for every test of the loop condition, and \<open>None\<close> when the
  fuel is used up.
\<close>

fun sweep_runs ::
  "env \<Rightarrow> soapy \<Rightarrow> real list \<Rightarrow> nat \<Rightarrow> bool \<Rightarrow> nat \<Rightarrow> nat \<Rightarrow> world
     \<Rightarrow> ((error \<times> world) + world) option" where
  "sweep_runs ev sp freq_list runs time_limit 0 run w = None"
| "sweep_runs ev sp freq_list runs time_limit (Suc fuel) run w =
     (let flag = shutdown ev (clock w);
          w0 = tick (Poll flag) w
      in if \<not> flag \<and> (runs = 0 \<or> run < runs) then
           (let run = Suc run;
                w1 = tick (RunStart run) w0
            in case sweep_hops ev sp freq_list w1 of
                 Inl x \<Rightarrow> Some (Inl x)
               | Inr w2 \<Rightarrow>
                   if time_limit \<and> time_exceeded ev (clock w2) then Some (Inr w2)
                   else sweep_runs ev sp freq_list runs time_limit fuel run w2)
         else Some (Inr w0))"

text \<open>
  \<open>sweep\<close>: \<open>setup\<close> runs before the \<open>try\<close>; of it \<open>create_buffer\<close> is modelled,
  and the device, the PSD engine and the writer are taken to succeed. \<open>freq_plan\<close> and
  the loop run inside the \<open>try\<close>, and \<open>finally\<close> calls \<open>stop\<close> and then logs
  \<open>t_stop - t_start\<close>; when \<open>freq_plan\<close> has raised, \<open>t_start\<close> is unbound there, and
  that error replaces the one of \<open>freq_plan\<close>. \<open>time_limit\<close> stands for
  \<open>time_limit != 0\<close>. The result is the exception that leaves \<open>sweep\<close>, if any, and
  the final state.
\<close>

definition sweep ::
  "env \<Rightarrow> real \<Rightarrow> real \<Rightarrow> real \<Rightarrow> real \<Rightarrow> int \<Rightarrow> int \<Rightarrow> nat \<Rightarrow> bool \<Rightarrow> real \<Rightarrow> real \<Rightarrow> int
     \<Rightarrow> nat \<Rightarrow> (error option \<times> world) option" where
  "sweep ev rate thresh min_freq max_freq bins repeats runs time_limit overlap lnb_lo
         max_buffer_size fuel =
     (case create_buffer rate bins repeats (base_buffer_len ev) max_buffer_size of
        Inl e \<Rightarrow> Some (Some e, initial_world)
      | Inr (brepeats, bsize) \<Rightarrow>
          let sp = \<lparr>sp_sample_rate = rate, sp_threshold = thresh, sp_buffer_repeats = nat brepeats\<rparr>
          in case freq_plan rate (min_freq - lnb_lo) (max_freq - lnb_lo) bins overlap of
               Inl e \<Rightarrow> Some (Some UnboundLocalError, tick Stop initial_world)
             | Inr freq_list \<Rightarrow>
                 (case sweep_runs ev sp freq_list runs time_limit fuel 0 initial_world of
                    None \<Rightarrow> None
                  | Some (Inl (e, w)) \<Rightarrow> Some (Some e, tick Stop w)
                  | Some (Inr w) \<Rightarrow> Some (None, tick Stop w)))"

subsection \<open>The bursts of a hop\<close>





subsection \<open>Reading a trace\<close>

text \<open>
  The events of a trace that happened at or after program point \<open>T\<close>, and how many
  of them satisfy \<open>P\<close>.
\<close>

definition late_events :: "nat \<Rightarrow> world \<Rightarrow> event list" where
  "late_events T w = map snd (filter (\<lambda>(t, e). T \<le> t) (trace w))"

definition late_count :: "nat \<Rightarrow> (event \<Rightarrow> bool) \<Rightarrow> world \<Rightarrow> nat" where
  "late_count T P w = length (filter P (late_events T w))"

definition sent_count :: "world \<Rightarrow> nat" where
  "sent_count w = length (filter is_Sent (map snd (trace w)))"

text \<open>
  Every event of a trace happened before the current program point.
\<close>

definition well_timed :: "world \<Rightarrow> bool" where
  "well_timed w = list_all (\<lambda>(t, e). t < clock w) (trace w)"

text \<open>
  The place of an event in one pass of the loop nest: a run starts, a hop starts, a
  buffer is read, a record is sent, \<open>stop\<close> is called. Reads of the flag have no
  place of their own.
\<close>

fun stage :: "event \<Rightarrow> nat" where
  "stage (Poll b) = 0"
| "stage (RunStart run) = 1"
| "stage (Hop freq) = 2"
| "stage (Acquire repeat) = 3"
| "stage (Sent n json) = 4"
| "stage SendFailed = 4"
| "stage Stop = 5"

definition late_stages :: "nat \<Rightarrow> world \<Rightarrow> nat list" where
  "late_stages T w = filter (\<lambda>k. 0 < k) (map stage (late_events T w))"

text \<open>A \<open>sendto\<close> has raised.\<close>

definition send_failed :: "world \<Rightarrow> bool" where
  "send_failed w = (SendFailed \<in> snd ` set (trace w))"

text \<open>
  From program point \<open>T\<close> on, the events have happened in the order of their stages,
  each stage at most once, and only stages below \<open>k\<close>.
\<close>

definition in_order :: "nat \<Rightarrow> nat \<Rightarrow> world \<Rightarrow> bool" where
  "in_order T k w =
     (well_timed w \<and> sorted_wrt (<) (late_stages T w)
      \<and> list_all (\<lambda>s. s < k) (late_stages T w))"

subsection \<open>Scenarios\<close>

text \<open>
  A radio at 400 kHz, so that \<open>minBurst\<close> is 2 samples, with a threshold of -90 dBm and
  a buffer of 9 samples. One buffer holds a burst on samples 1 to 4, one a longer burst
  on samples 3 to 7, one is silent. The PSD engine answers every hop with the same four
  bins.
\<close>

definition burst_a :: "complex list" where
  "burst_a = [0, 5, - 5, 5, - 5, 0, 0, 0, 0]"


definition silence :: "complex list" where
  "silence = [0, 0, 0, 0, 0, 0, 0, 0, 0]"



text \<open>Every buffer holds a burst and every \<open>sendto\<close> raises.\<close>

definition send_fails :: env where
  "send_fails =
     \<lparr>read_stream_into_buffer = (\<lambda>t. burst_a),
      utcnow = real,
      shutdown = (\<lambda>t. False),
      psd_result = (\<lambda>freq blocks. [- 100, - 50, - 49, - 100]),
      sendto_ok = (\<lambda>t. False),
      print_ok = (\<lambda>t. True),
      time_exceeded = (\<lambda>t. False),
      base_buffer_len = 9\<rparr>"

text \<open>
  Silence, and the signal handler runs just before program point 2: after the test of
  the loop condition and \<open>run += 1\<close>, before the first call of \<open>psd\<close>.
\<close>

definition signal_at_2 :: env where
  "signal_at_2 =
     \<lparr>read_stream_into_buffer = (\<lambda>t. silence),
      utcnow = real,
      shutdown = (\<lambda>t. 2 \<le> t),
      psd_result = (\<lambda>freq blocks. [- 100, - 50, - 49, - 100]),
      sendto_ok = (\<lambda>t. True),
      print_ok = (\<lambda>t. True),
      time_exceeded = (\<lambda>t. False),
      base_buffer_len = 9\<rparr>"

section \<open>Properties\<close>

lemma ceil_quot_ge:
  assumes "0 < b"
  shows "a \<le> ceil_quot a b * b"
proof -
  have "real_of_int a / real_of_int b \<le> of_int (ceil_quot a b)"
    unfolding ceil_quot_def by (rule le_of_int_ceiling)
  then have "real_of_int a \<le> of_int (ceil_quot a b) * real_of_int b"
    using assms by (simp add: pos_divide_le_eq)
  then have "real_of_int a \<le> real_of_int (ceil_quot a b * b)"
    by simp
  then show ?thesis
    by (simp only: of_int_le_iff)
qed

subsection \<open>Buffer sizer\<close>

text \<open>
  C5. For positive \<open>bins\<close>, \<open>repeats\<close> and \<open>base_buffer_size\<close> (and the positive
  sample rate of a device), \<open>create_buffer\<close> returns; the buffer size is a multiple
  of \<open>base_buffer_size\<close>; without clamping \<open>buffer_size * buffer_repeats\<close> is at
  least \<open>bins * repeats\<close>; with clamping \<open>buffer_size\<close> is at most the aligned
  maximum and \<open>buffer_repeats * buffer_size\<close> is at least \<open>bins * repeats\<close>.
\<close>

theorem create_buffer_sizing:
  assumes "0 < bins" "0 < repeats" "0 < base_buffer_size" "0 < sample_rate"
  shows "\<exists>buffer_repeats buffer_size.
           create_buffer sample_rate bins repeats base_buffer_size max_buffer_size
             = Inr (buffer_repeats, buffer_size)
         \<and> base_buffer_size dvd buffer_size
         \<and> (\<not> clamped bins repeats base_buffer_size max_buffer_size
              \<longrightarrow> buffer_size * buffer_repeats \<ge> bins * repeats)
         \<and> (clamped bins repeats base_buffer_size max_buffer_size
              \<longrightarrow> buffer_size \<le> aligned_max base_buffer_size max_buffer_size
                  \<and> buffer_repeats * buffer_size \<ge> bins * repeats)"
proof (cases "clamped bins repeats base_buffer_size max_buffer_size")
  case False
  have req: "bins * repeats \<le> required_size bins repeats base_buffer_size"
    unfolding required_size_def using assms(3) by (rule ceil_quot_ge)
  have "0 < bins * repeats" using assms by simp
  with req have pos: "0 \<le> required_size bins repeats base_buffer_size" by linarith
  have "create_buffer sample_rate bins repeats base_buffer_size max_buffer_size
          = Inr (1, required_size bins repeats base_buffer_size)"
    using False assms pos by (simp add: create_buffer_def Let_def)
  moreover have "base_buffer_size dvd required_size bins repeats base_buffer_size"
    by (simp add: required_size_def)
  ultimately show ?thesis using False req by simp
next
  case True
  let ?amax = "aligned_max base_buffer_size max_buffer_size"
  let ?req = "required_size bins repeats base_buffer_size"
  have em: "0 < effective_max max_buffer_size" and gt: "?amax < ?req"
    using True by (simp_all add: clamped_def)
  have "effective_max max_buffer_size \<le> ?amax"
    unfolding aligned_max_def using assms(3) by (rule ceil_quot_ge)
  with em have apos: "0 < ?amax" by linarith
  have req: "bins * repeats \<le> ?req"
    unfolding required_size_def using assms(3) by (rule ceil_quot_ge)
  have cover: "?req \<le> ceil_quot ?req ?amax * ?amax"
    using apos by (rule ceil_quot_ge)
  have "create_buffer sample_rate bins repeats base_buffer_size max_buffer_size
          = Inr (ceil_quot ?req ?amax, ?amax)"
    using True assms apos by (simp add: create_buffer_def Let_def)
  moreover have "base_buffer_size dvd ?amax"
    by (simp add: aligned_max_def)
  ultimately show ?thesis using True req cover by simp
qed

theorem create_buffer_sizing_witness:
  "create_buffer 2000000 8192 10 16384 65536 = Inr (2, 65536)
   \<and> clamped 8192 10 16384 65536 \<and> aligned_max 16384 65536 = 65536"
  using create_buffer_sizing [of 8192 10 16384 2000000 65536]
  by (simp add: create_buffer_def required_size_def aligned_max_def clamped_def effective_max_def
        default_max_buffer_size_def ceil_quot_def)

text \<open>
  C4, as the code has it. A \<open>max_buffer_size\<close> of zero is not unlimited: it stands
  for the default limit of 13107200 samples, and the call behaves as the call with that
  limit. The unlimited buffer is the one of a negative \<open>max_buffer_size\<close>: then
  \<open>buffer_repeats\<close> is 1 and the size is \<open>bins * repeats\<close> rounded up to a multiple of
  \<open>base_buffer_size\<close>, however large.
\<close>

theorem create_buffer_zero_max:
  "create_buffer sample_rate bins repeats base_buffer_size 0
     = create_buffer sample_rate bins repeats base_buffer_size 13107200
   \<and> (0 < bins \<and> 0 < repeats \<and> 0 < base_buffer_size \<and> 0 < sample_rate \<and> max_buffer_size < 0
        \<longrightarrow> create_buffer sample_rate bins repeats base_buffer_size max_buffer_size
              = Inr (1, ceil_quot (bins * repeats) base_buffer_size * base_buffer_size))"
proof -
  have a: "effective_max 0 = effective_max 13107200"
    by (simp add: effective_max_def default_max_buffer_size_def)
  have first: "create_buffer sample_rate bins repeats base_buffer_size 0
     = create_buffer sample_rate bins repeats base_buffer_size 13107200"
    unfolding create_buffer_def clamped_def aligned_max_def a ..
  have second: "create_buffer sample_rate bins repeats base_buffer_size max_buffer_size
              = Inr (1, ceil_quot (bins * repeats) base_buffer_size * base_buffer_size)"
    if h: "0 < bins" "0 < repeats" "0 < base_buffer_size" "0 < sample_rate" "max_buffer_size < 0"
  proof -
    have nc: "\<not> clamped bins repeats base_buffer_size max_buffer_size"
      using h(5) by (simp add: clamped_def effective_max_def)
    have req: "bins * repeats \<le> required_size bins repeats base_buffer_size"
      unfolding required_size_def using h(3) by (rule ceil_quot_ge)
    have "0 < bins * repeats" using h by simp
    with req have pos: "0 \<le> required_size bins repeats base_buffer_size" by linarith
    show ?thesis using nc h pos by (simp add: create_buffer_def Let_def required_size_def)
  qed
  show ?thesis using first second by blast
qed

theorem create_buffer_zero_max_witness:
  "create_buffer 2000000 8192 3200 16384 0 = create_buffer 2000000 8192 3200 16384 13107200
   \<and> create_buffer 2000000 8192 3200 16384 (- 1) = Inr (1, 26214400)"
  using create_buffer_zero_max [of 2000000 8192 3200 16384 "- 1"]
  by (simp add: ceil_quot_def)

text \<open>
  C4, as the claim states it, fails: 8192 bins and 3200 repeats on a base buffer of 16384
  samples need 26214400 samples, and with \<open>max_buffer_size = 0\<close> the buffer is clamped
  to 13107200 samples, read twice.
\<close>

theorem create_buffer_zero_max_counterexample:
  "create_buffer 2000000 8192 3200 16384 0 = Inr (2, 13107200)
   \<and> ceil_quot (8192 * 3200) 16384 * 16384 = 26214400
   \<and> clamped 8192 3200 16384 0"
  by (simp add: create_buffer_def required_size_def aligned_max_def clamped_def
        effective_max_def default_max_buffer_size_def ceil_quot_def)

subsection \<open>Hop planner\<close>

lemma py_round_pos:
  assumes "1 / 2 < x"
  shows "1 \<le> py_round x"
proof -
  have f0: "0 \<le> \<lfloor>x\<rfloor>" using assms by (simp add: zero_le_floor)
  show ?thesis
  proof (cases "\<lfloor>x\<rfloor> = 0")
    case True
    then have "x - of_int \<lfloor>x\<rfloor> > 1 / 2" using assms by simp
    then show ?thesis using True by (simp add: py_round_def Let_def)
  next
    case False
    with f0 have "1 \<le> \<lfloor>x\<rfloor>" by linarith
    then show ?thesis by (auto simp add: py_round_def Let_def)
  qed
qed

lemma hop_size_pos:
  assumes "0 < sample_rate" "0 < bins" "1 / 2 < (1 - overlap) * of_int bins"
  shows "0 < hop_size sample_rate bins overlap"
proof -
  have eq: "(1 - overlap) * sample_rate / (sample_rate / of_int bins) = (1 - overlap) * of_int bins"
    using assms(1) by simp
  have "1 \<le> py_round ((1 - overlap) * of_int bins)"
    using assms(3) by (rule py_round_pos)
  then have "0 < real_of_int (py_round ((1 - overlap) * of_int bins))" by simp
  moreover have "0 < sample_rate / of_int bins" using assms by simp
  ultimately show ?thesis
    unfolding hop_size_def nearest_freq_def bins_to_bin_size_def eq
    by (rule mult_pos_pos)
qed

lemma freq_plan_eq:
  assumes "0 < sample_rate" "0 < bins" "0 < hop_size sample_rate bins overlap"
  shows "freq_plan sample_rate min_freq max_freq bins overlap =
     Inr (map (\<lambda>i. (if hopping sample_rate min_freq max_freq overlap
                     then min_freq + hop_size sample_rate bins overlap / 2
                     else min_freq + (max_freq - min_freq) / 2)
                 + of_int i * hop_size sample_rate bins overlap)
            [0..(if hopping sample_rate min_freq max_freq overlap
                 then \<lceil>(max_freq - min_freq) / hop_size sample_rate bins overlap\<rceil> else 1) - 1])"
proof -
  have "bins_to_bin_size sample_rate bins \<noteq> 0"
    using assms(1,2) by (simp add: bins_to_bin_size_def)
  moreover have "nearest_freq ((1 - overlap) * sample_rate) (bins_to_bin_size sample_rate bins) \<noteq> 0"
    using assms(3) by (simp add: hop_size_def)
  ultimately show ?thesis
    using assms(2) by (simp add: freq_plan_def Let_def hop_size_def hopping_def)
qed

lemma spacing_upto:
  assumes "Suc i < length (map (\<lambda>k. c + of_int k * h) [0..n])"
  shows "map (\<lambda>k. c + real_of_int k * h) [0..n] ! Suc i - map (\<lambda>k. c + of_int k * h) [0..n] ! i = h"
proof -
  have len: "Suc i < nat (n + 1)" using assms by simp
  then have a: "[0..n] ! Suc i = int (Suc i)" by (simp add: nth_upto)
  have b: "[0..n] ! i = int i" using len by (simp add: nth_upto)
  have "Suc i < length [0..n]" "i < length [0..n]" using len by simp_all
  then show ?thesis using a b by (simp add: algebra_simps)
qed

text \<open>
  C3, as the code has it. For a positive sample rate, a positive number of bins and an
  overlap that leaves more than half a bin, \<open>freq_plan\<close> returns a non-empty list
  whose consecutive elements are exactly \<open>hop_size\<close> apart. When hopping
  (\<open>max_freq - min_freq \<ge> (1 - overlap) * sample_rate\<close>) the first element less
  \<open>hop_size / 2\<close> is \<open>min_freq\<close> and the last element plus \<open>hop_size / 2\<close> is at
  least \<open>max_freq\<close>. Otherwise the list is the single centre
  \<open>min_freq + (max_freq - min_freq) / 2\<close>, and the two bounds are not claimed.
\<close>

theorem freq_plan_hops:
  assumes "0 < sample_rate" "0 < bins" "1 / 2 < (1 - overlap) * of_int bins"
  shows "\<exists>fs. freq_plan sample_rate min_freq max_freq bins overlap = Inr fs
          \<and> fs \<noteq> []
          \<and> (\<forall>i. Suc i < length fs \<longrightarrow> fs ! Suc i - fs ! i = hop_size sample_rate bins overlap)
          \<and> (hopping sample_rate min_freq max_freq overlap \<longrightarrow>
                hd fs - hop_size sample_rate bins overlap / 2 = min_freq
              \<and> last fs + hop_size sample_rate bins overlap / 2 \<ge> max_freq)
          \<and> (\<not> hopping sample_rate min_freq max_freq overlap \<longrightarrow>
                fs = [min_freq + (max_freq - min_freq) / 2])"
proof -
  let ?h = "hop_size sample_rate bins overlap"
  have hpos: "0 < ?h" using assms by (rule hop_size_pos)
  note eq = freq_plan_eq [OF assms(1,2) hpos, of min_freq max_freq]
  show ?thesis
  proof (cases "hopping sample_rate min_freq max_freq overlap")
    case False
    then show ?thesis using eq by (simp add: upto.simps)
  next
    case True
    let ?n = "\<lceil>(max_freq - min_freq) / ?h\<rceil>"
    let ?fs = "map (\<lambda>i. min_freq + ?h / 2 + of_int i * ?h) [0..?n - 1]"
    have fp: "freq_plan sample_rate min_freq max_freq bins overlap = Inr ?fs"
      using eq True by simp
    have "0 < (1 - overlap) * real_of_int bins" using assms(3) by linarith
    moreover have "0 < real_of_int bins" using assms(2) by simp
    ultimately have "0 < 1 - overlap" by (simp add: zero_less_mult_iff)
    then have "0 < (1 - overlap) * sample_rate" using assms(1) by simp
    then have rpos: "0 < max_freq - min_freq" using True by (simp add: hopping_def)
    then have "0 < (max_freq - min_freq) / ?h" using hpos by simp
    then have n1: "1 \<le> ?n" by (simp add: less_ceiling_iff)
    then have ne: "[0..?n - 1] \<noteq> []" by simp
    have hd0: "hd [0..?n - 1] = 0" using n1 by (simp add: upto.simps)
    have lastn: "last [0..?n - 1] = ?n - 1" using n1 by (simp add: upto_rec2)
    have h1: "hd ?fs - ?h / 2 = min_freq"
      using ne hd0 by (simp add: hd_map)
    have "max_freq - min_freq \<le> of_int ?n * ?h"
      using hpos by (simp add: pos_divide_le_eq [symmetric])
    moreover have "last ?fs = min_freq + ?h / 2 + of_int (?n - 1) * ?h"
      using ne lastn by (simp add: last_map)
    then have "last ?fs + ?h / 2 = min_freq + of_int ?n * ?h"
      by (simp add: algebra_simps)
    ultimately have h2: "max_freq \<le> last ?fs + ?h / 2"
      by linarith
    have h3: "\<forall>i. Suc i < length ?fs \<longrightarrow> ?fs ! Suc i - ?fs ! i = ?h"
      using spacing_upto [of _ "min_freq + ?h / 2" ?h "?n - 1"] by blast
    show ?thesis using fp ne h1 h2 h3 True by simp
  qed
qed

theorem freq_plan_hops_witness:
  "freq_plan 2000000 88000000 91000000 1024 (1 / 4) = Inr [88750000, 90250000]
   \<and> hopping 2000000 88000000 91000000 (1 / 4)
   \<and> hop_size 2000000 1024 (1 / 4) = 1500000"
  using freq_plan_hops [of 2000000 1024 "1 / 4" 88000000 91000000]
  by (simp add: freq_plan_def hopping_def hop_size_def nearest_freq_def bins_to_bin_size_def
        py_round_def upto.simps)

text \<open>
  C3, as the claim states it, fails in single-centre mode: for
  \<open>min_freq = max_freq = 100 MHz\<close> at 2 MHz, 1024 bins and no overlap, the plan is the
  one centre 100 MHz, \<open>hop_size\<close> is 2 MHz, and \<open>f0 - hop_size / 2\<close> is 99 MHz, below
  \<open>min_freq\<close>.
\<close>

theorem freq_plan_single_hop_counterexample:
  "freq_plan 2000000 100000000 100000000 1024 0 = Inr [100000000]
   \<and> hop_size 2000000 1024 0 = 2000000
   \<and> \<not> (100000000 \<le> hd [100000000 :: real] - hop_size 2000000 1024 0 / 2)"
  by (simp add: freq_plan_def hopping_def hop_size_def nearest_freq_def bins_to_bin_size_def
        py_round_def upto.simps)

subsection \<open>Burst detector\<close>

lemma scan_stop_char:
  "\<exists>k\<le>length xs. scan_stop mb l xs = (l # xs) ! k
      \<and> (\<forall>j<k. (l # xs) ! Suc j - (l # xs) ! j \<le> mb)
      \<and> (k < length xs \<longrightarrow> (l # xs) ! Suc k - (l # xs) ! k > mb)"
proof (induction xs arbitrary: l)
  case Nil
  show ?case by simp
next
  case (Cons x xs)
  show ?case
  proof (cases "x - l > mb")
    case True
    then show ?thesis by (intro exI [of _ 0]) simp
  next
    case False
    from Cons.IH [of x] obtain k where k: "k \<le> length xs" "scan_stop mb x xs = (x # xs) ! k"
      "\<forall>j<k. (x # xs) ! Suc j - (x # xs) ! j \<le> mb"
      "k < length xs \<longrightarrow> (x # xs) ! Suc k - (x # xs) ! k > mb"
      by blast
    have "\<forall>j<Suc k. (l # x # xs) ! Suc j - (l # x # xs) ! j \<le> mb"
    proof (intro allI impI)
      fix j assume "j < Suc k"
      then show "(l # x # xs) ! Suc j - (l # x # xs) ! j \<le> mb"
        using False k(3) by (cases j) auto
    qed
    then show ?thesis using False k by (intro exI [of _ "Suc k"]) simp
  qed
qed

lemma scan_stop_first:
  assumes "0 \<le> mb"
  shows "scan_stop mb s (s # rest) = scan_stop mb s rest"
  using assms by simp

lemma filter_upt_first:
  assumes "filter P [0..<n] = i # rest"
  shows "i < n \<and> P i \<and> (\<forall>j<i. \<not> P j)"
proof -
  from assms obtain us vs where uv: "[0..<n] = us @ i # vs" "\<forall>u\<in>set us. \<not> P u" "P i"
    by (auto simp add: filter_eq_Cons_iff)
  have "i \<in> set [0..<n]" unfolding uv(1) by simp
  then have "i < n" by simp
  have srt: "sorted (us @ i # vs)" using sorted_upt [of 0 n] unfolding uv(1) .
  have "\<not> P j" if "j < i" for j
  proof -
    have "j \<in> set [0..<n]" using that \<open>i < n\<close> by simp
    then have "j \<in> set us \<or> j = i \<or> j \<in> set vs" unfolding uv(1) by auto
    moreover have "j \<notin> set vs" using srt that by (auto simp add: sorted_append)
    ultimately show ?thesis using that uv(2) by auto
  qed
  then show ?thesis using \<open>i < n\<close> uv(3) by blast
qed

lemma burst_idx_mem:
  "x \<in> set (burst_idx thr iq) \<longleftrightarrow> (0 \<le> x \<and> nat x < length iq \<and> \<bar>iq ! nat x\<bar> > thr)"
  unfolding burst_idx_def by (auto simp add: image_iff)

lemma burst_idx_first:
  assumes "burst_idx thr iq = s # rest"
  shows "0 \<le> s \<and> nat s < length iq \<and> \<bar>iq ! nat s\<bar> > thr \<and> (\<forall>j<nat s. \<not> \<bar>iq ! j\<bar> > thr)"
proof -
  from assms obtain i r where f: "filter (\<lambda>i. \<bar>iq ! i\<bar> > thr) [0..<length iq] = i # r" and s: "s = int i"
    unfolding burst_idx_def by (auto simp add: map_eq_Cons_conv)
  from filter_upt_first [OF f] show ?thesis using s by simp
qed

lemma np_max_ge: "x \<le> np_max x xs"
  unfolding np_max_def by (induction xs arbitrary: x) (auto intro: order_trans [OF max.cobounded2] simp add: max.coboundedI1)

lemma np_max_mem: "np_max x xs \<in> set (x # xs)"
  unfolding np_max_def 
proof (induction xs arbitrary: x)
  case Nil show ?case by simp
next
  case (Cons y ys)
  have "fold max ys (max y x) \<in> set (max y x # ys)" by (rule Cons.IH)
  moreover have "max y x = x \<or> max y x = y" by (simp add: max_def)
  ultimately show ?case by auto
qed

lemma np_max_upper: "y \<in> set (x # xs) \<Longrightarrow> y \<le> np_max x xs"
  unfolding np_max_def
proof (induction xs arbitrary: x)
  case Nil then show ?case by simp
next
  case (Cons z zs)
  have a: "max z x \<le> fold max zs (max z x)" using np_max_ge [of "max z x" zs] by (simp add: np_max_def)
  from Cons.prems have "y = x \<or> y = z \<or> y \<in> set zs" by auto
  then show ?case
  proof (elim disjE)
    assume "y = x" then show ?thesis using a by simp
  next
    assume "y = z" then show ?thesis using a by simp
  next
    assume "y \<in> set zs" 
    then have "y \<in> set (max z x # zs)" by simp
    from Cons.IH [OF this] show ?thesis by simp
  qed
qed

lemma np_max_Max: "np_max x xs = Max (set (x # xs))"
  by (intro antisym Max_ge Max.boundedI) (auto intro: np_max_upper np_max_mem simp del: set_simps)

lemma py_int_floor: "0 \<le> x \<Longrightarrow> py_int x = \<lfloor>x\<rfloor>"
  by (simp add: py_int_def)

lemma py_int_nonneg: "0 \<le> x \<Longrightarrow> 0 \<le> py_int x"
  by (simp add: py_int_def)

lemma detect_Some:
  assumes "0 \<le> mb" "detect mb thr iq = Inr (Some b)"
  shows "\<exists>s rest. burst_idx thr iq = s # rest
           \<and> b_start b = s \<and> b_stop b = scan_stop mb s rest
           \<and> mb < b_stop b - b_start b
           \<and> b_safestart b = (if s > mb then s - mb else 0)
           \<and> b_safestop b = (if int (length iq) - 1 - b_stop b > mb then b_stop b + mb
                               else int (length iq) - 1)"
  using assms
  by (auto simp add: detect_def Let_def split: list.splits if_splits)

lemma gap_unique:
  fixes bs :: "int list"
  assumes "k1 < length bs" "\<forall>j<k1. bs ! Suc j - bs ! j \<le> mb"
      "Suc k1 < length bs \<longrightarrow> bs ! Suc k1 - bs ! k1 > mb"
    and "k2 < length bs" "\<forall>j<k2. bs ! Suc j - bs ! j \<le> mb"
      "Suc k2 < length bs \<longrightarrow> bs ! Suc k2 - bs ! k2 > mb"
  shows "k1 = k2"
proof (rule ccontr)
  assume "k1 \<noteq> k2"
  then consider "k1 < k2" | "k2 < k1" by linarith
  then show False
  proof cases
    case 1
    then have "Suc k1 < length bs" using assms(4) by simp
    then show False using assms(3) assms(5) 1 by fastforce
  next
    case 2
    then have "Suc k2 < length bs" using assms(1) by simp
    then show False using assms(6) assms(2) 2 by fastforce
  qed
qed

text \<open>
  C6. With \<open>minBurst = int(0.000005 * sample_rate)\<close>, the floor for a sample rate that
  is not negative, and \<open>bs\<close> the ordered indices above the threshold: every burst that
  \<open>detect\<close> emits starts at the smallest index above the threshold; stops at the index
  \<open>bs ! k\<close> before the first gap wider than \<open>minBurst\<close>, or at the last index when
  there is no such gap; is longer than \<open>minBurst\<close>; and has the safe window
  \<open>max(0, start - minBurst)\<close>, \<open>min(|iq| - 1, stop + minBurst)\<close> with
  \<open>0 \<le> safe_start \<le> start < stop \<le> safe_stop < |iq|\<close>. No burst is emitted when
  \<open>max(iq) \<le> absThreshold\<close>, nor when that stop less the start is at most \<open>minBurst\<close>.
\<close>

theorem detect_burst:
  assumes "0 \<le> sample_rate" and "minBurst = py_int (0.000005 * sample_rate)"
    and "bs = burst_idx thr iq"
  shows "minBurst = \<lfloor>0.000005 * sample_rate\<rfloor>
    \<and> (\<forall>b. detect minBurst thr iq = Inr (Some b) \<longrightarrow>
          0 \<le> b_start b \<and> \<bar>iq ! nat (b_start b)\<bar> > thr
          \<and> (\<forall>i<nat (b_start b). \<not> \<bar>iq ! i\<bar> > thr)
          \<and> (\<exists>k<length bs. b_stop b = bs ! k
                \<and> (\<forall>j<k. bs ! Suc j - bs ! j \<le> minBurst)
                \<and> (Suc k < length bs \<longrightarrow> bs ! Suc k - bs ! k > minBurst))
          \<and> b_stop b - b_start b > minBurst
          \<and> b_safestart b = max 0 (b_start b - minBurst)
          \<and> b_safestop b = min (int (length iq) - 1) (b_stop b + minBurst)
          \<and> 0 \<le> b_safestart b \<and> b_safestart b \<le> b_start b \<and> b_start b < b_stop b
          \<and> b_stop b \<le> b_safestop b \<and> b_safestop b < int (length iq))
    \<and> (iq \<noteq> [] \<and> Max (set iq) \<le> thr \<longrightarrow> detect minBurst thr iq = Inr None)
    \<and> (\<forall>k<length bs. (\<forall>j<k. bs ! Suc j - bs ! j \<le> minBurst)
          \<and> (Suc k < length bs \<longrightarrow> bs ! Suc k - bs ! k > minBurst)
          \<and> bs ! k - bs ! 0 \<le> minBurst
          \<longrightarrow> detect minBurst thr iq = Inr None)"
proof -
  have mb0: "0 \<le> minBurst" using assms(1,2) by (simp add: py_int_nonneg)
  have p1: "minBurst = \<lfloor>0.000005 * sample_rate\<rfloor>"
    using assms(1,2) by (simp add: py_int_floor)
  txt \<open>the emitted burst\<close>
  have emitted: "0 \<le> b_start b \<and> \<bar>iq ! nat (b_start b)\<bar> > thr
          \<and> (\<forall>i<nat (b_start b). \<not> \<bar>iq ! i\<bar> > thr)
          \<and> (\<exists>k<length bs. b_stop b = bs ! k
                \<and> (\<forall>j<k. bs ! Suc j - bs ! j \<le> minBurst)
                \<and> (Suc k < length bs \<longrightarrow> bs ! Suc k - bs ! k > minBurst))
          \<and> b_stop b - b_start b > minBurst
          \<and> b_safestart b = max 0 (b_start b - minBurst)
          \<and> b_safestop b = min (int (length iq) - 1) (b_stop b + minBurst)
          \<and> 0 \<le> b_safestart b \<and> b_safestart b \<le> b_start b \<and> b_start b < b_stop b
          \<and> b_stop b \<le> b_safestop b \<and> b_safestop b < int (length iq)"
    if d: "detect minBurst thr iq = Inr (Some b)" for b
  proof -
    from detect_Some [OF mb0 d] obtain s rest where
      bi: "burst_idx thr iq = s # rest" and st: "b_start b = s"
      and sp: "b_stop b = scan_stop minBurst s rest"
      and len: "minBurst < b_stop b - b_start b"
      and ss: "b_safestart b = (if s > minBurst then s - minBurst else 0)"
      and se: "b_safestop b = (if int (length iq) - 1 - b_stop b > minBurst
                               then b_stop b + minBurst else int (length iq) - 1)"
      by blast
    have bseq: "bs = s # rest" using bi assms(3) by simp
    from burst_idx_first [OF bi]
    have first: "0 \<le> s" "\<bar>iq ! nat s\<bar> > thr" "\<forall>j<nat s. \<not> \<bar>iq ! j\<bar> > thr"
      by simp_all
    from scan_stop_char [of rest minBurst s] obtain k where
      k: "k \<le> length rest" "scan_stop minBurst s rest = (s # rest) ! k"
         "\<forall>j<k. (s # rest) ! Suc j - (s # rest) ! j \<le> minBurst"
         "k < length rest \<longrightarrow> (s # rest) ! Suc k - (s # rest) ! k > minBurst"
      by blast
    have kl: "k < length bs" using k(1) bseq by simp
    have stopchar: "\<exists>k<length bs. b_stop b = bs ! k
                \<and> (\<forall>j<k. bs ! Suc j - bs ! j \<le> minBurst)
                \<and> (Suc k < length bs \<longrightarrow> bs ! Suc k - bs ! k > minBurst)"
      using k kl sp bseq by (intro exI [of _ k]) simp
    have "b_stop b \<in> set (burst_idx thr iq)"
      using kl sp k(2) bseq assms(3) by (metis nth_mem)
    then have "nat (b_stop b) < length iq" "0 \<le> b_stop b"
      by (simp_all add: burst_idx_mem)
    then have stoplt: "b_stop b \<le> int (length iq) - 1" by linarith
    have a1: "b_safestart b = max 0 (b_start b - minBurst)" using ss st by (simp add: max_def)
    have a2: "b_safestop b = min (int (length iq) - 1) (b_stop b + minBurst)"
      using se by (simp add: min_def)
    have a3: "0 \<le> b_safestart b" "b_safestart b \<le> b_start b" using a1 mb0 first(1) st by simp_all
    have a4: "b_start b < b_stop b" using len mb0 by linarith
    have a5: "b_stop b \<le> b_safestop b" "b_safestop b < int (length iq)"
      using a2 mb0 stoplt by simp_all
    show ?thesis
      using first st stopchar len a1 a2 a3 a4 a5 by simp
  qed
  txt \<open>nothing above the threshold\<close>
  have quiet: "detect minBurst thr iq = Inr None" if "iq \<noteq> []" "Max (set iq) \<le> thr"
  proof -
    from that(1) obtain x xs where iq: "iq = x # xs" by (cases iq) auto
    have "np_max x xs \<le> thr" using that(2) iq by (simp only: np_max_Max)
    then show ?thesis using iq by (simp add: detect_def)
  qed
  txt \<open>a burst that is too short\<close>
  have short: "detect minBurst thr iq = Inr None"
    if kl: "k < length bs" and g1: "\<forall>j<k. bs ! Suc j - bs ! j \<le> minBurst"
      and g2: "Suc k < length bs \<longrightarrow> bs ! Suc k - bs ! k > minBurst"
      and sh: "bs ! k - bs ! 0 \<le> minBurst" for k
  proof -
    from kl obtain s rest where bseq: "bs = s # rest" by (cases bs) auto
    then have "s \<in> set (burst_idx thr iq)" using assms(3) by (metis list.set_intros(1))
    then have "iq \<noteq> []" by (auto simp add: burst_idx_mem)
    then obtain x xs where iq: "iq = x # xs" by (cases iq) auto
    from scan_stop_char [of rest minBurst s] obtain k' where
      k': "k' \<le> length rest" "scan_stop minBurst s rest = (s # rest) ! k'"
         "\<forall>j<k'. (s # rest) ! Suc j - (s # rest) ! j \<le> minBurst"
         "k' < length rest \<longrightarrow> (s # rest) ! Suc k' - (s # rest) ! k' > minBurst"
      by blast
    have "k = k'"
    proof (rule gap_unique [of k bs minBurst k'])
      show "k < length bs" by (rule kl)
      show "\<forall>j<k. bs ! Suc j - bs ! j \<le> minBurst" by (rule g1)
      show "Suc k < length bs \<longrightarrow> minBurst < bs ! Suc k - bs ! k" by (rule g2)
      show "k' < length bs" using k'(1) bseq by simp
      show "\<forall>j<k'. bs ! Suc j - bs ! j \<le> minBurst" using k'(3) bseq by simp
      show "Suc k' < length bs \<longrightarrow> minBurst < bs ! Suc k' - bs ! k'" using k'(4) bseq by simp
    qed
    then have "scan_stop minBurst s rest - s \<le> minBurst" using sh k'(2) bseq by simp
    moreover have "scan_stop minBurst s (s # rest) = scan_stop minBurst s rest"
      using mb0 by simp
    ultimately show ?thesis using iq bseq assms(3) mb0
      by (simp add: detect_def Let_def del: scan_stop.simps)
  qed
  show ?thesis using p1 emitted quiet short by blast
qed

theorem detect_burst_witness:
  "detect 2 (1 / 2) [0, 1, 1, 1, 1, 0, 0, 0, 1]
     = Inr (Some \<lparr>b_start = 1, b_stop = 4, b_safestart = 0, b_safestop = 6\<rparr>)
   \<and> py_int (0.000005 * 400000) = 2
   \<and> burst_idx (1 / 2) [0, 1, 1, 1, 1, 0, 0, 0, 1] = [1, 2, 3, 4, 8]"
  using detect_burst [of 400000 2 "[1, 2, 3, 4, 8]" "1 / 2" "[0, 1, 1, 1, 1, 0, 0, 0, 1]"]
  by (simp add: detect_def burst_idx_def np_max_def py_int_def upt_rec_numeral Let_def)

subsection \<open>Measurement reducer\<close>

lemma argmax_from_max:
  assumes "length pre = i" "besti < i" "pre ! besti = best" "\<forall>y\<in>set pre. y \<le> best"
  shows "argmax_from best besti i xs < length (pre @ xs)
       \<and> (\<forall>y\<in>set (pre @ xs). y \<le> (pre @ xs) ! argmax_from best besti i xs)"
  using assms
proof (induction xs arbitrary: pre i besti best)
  case Nil
  then show ?case by simp
next
  case (Cons x xs)
  show ?case
  proof (cases "x > best")
    case True
    have "argmax_from x i (Suc i) xs < length ((pre @ [x]) @ xs)
       \<and> (\<forall>y\<in>set ((pre @ [x]) @ xs). y \<le> ((pre @ [x]) @ xs) ! argmax_from x i (Suc i) xs)"
    proof (rule Cons.IH)
      show "length (pre @ [x]) = Suc i" using Cons.prems(1) by simp
      show "i < Suc i" by simp
      show "(pre @ [x]) ! i = x" using Cons.prems(1) by (simp add: nth_append)
      show "\<forall>y\<in>set (pre @ [x]). y \<le> x" using Cons.prems(4) True by fastforce
    qed
    then show ?thesis using True by simp
  next
    case False
    have "argmax_from best besti (Suc i) xs < length ((pre @ [x]) @ xs)
       \<and> (\<forall>y\<in>set ((pre @ [x]) @ xs). y \<le> ((pre @ [x]) @ xs) ! argmax_from best besti (Suc i) xs)"
    proof (rule Cons.IH)
      show "length (pre @ [x]) = Suc i" using Cons.prems(1) by simp
      show "besti < Suc i" using Cons.prems(2) by simp
      show "(pre @ [x]) ! besti = best" using Cons.prems(1,2,3) by (simp add: nth_append)
      show "\<forall>y\<in>set (pre @ [x]). y \<le> best" using Cons.prems(4) False by auto
    qed
    then show ?thesis using False by simp
  qed
qed

lemma argmax_max:
  assumes "xs \<noteq> []"
  shows "argmax xs < length xs \<and> (\<forall>y\<in>set xs. y \<le> xs ! argmax xs)"
proof -
  from assms obtain x rest where xs: "xs = x # rest" by (cases xs) auto
  have "argmax_from x 0 1 rest < length ([x] @ rest)
       \<and> (\<forall>y\<in>set ([x] @ rest). y \<le> ([x] @ rest) ! argmax_from x 0 1 rest)"
    by (rule argmax_from_max) simp_all
  then show ?thesis using xs by (simp add: argmax_def)
qed

lemma argmax_Max:
  assumes "xs \<noteq> []"
  shows "xs ! argmax xs = Max (set xs)"
proof -
  have a: "argmax xs < length xs" "\<forall>y\<in>set xs. y \<le> xs ! argmax xs"
    using argmax_max [OF assms] by simp_all
  show ?thesis
    using a assms by (intro antisym Max_ge Max.boundedI) auto
qed

lemma sorted_int_filter_upt: "sorted (map int (filter P [0..<n]))"
proof -
  have "sorted (map int [0..<n])"
    by (simp add: sorted_map sorted_wrt_iff_nth_less)
  then show ?thesis by (rule sorted_filter)
qed

lemma edges_bounds:
  assumes "p < n" "P p"
  defines "edges \<equiv> map int (filter P [0..<n])"
  shows "edges \<noteq> [] \<and> 0 \<le> hd edges \<and> hd edges \<le> last edges \<and> last edges \<le> int n - 1"
proof -
  have "int p \<in> set edges" using assms by simp
  then have ne: "edges \<noteq> []" by auto
  have srt: "sorted edges" unfolding edges_def by (rule sorted_int_filter_upt)
  have "hd edges \<in> set edges" "last edges \<in> set edges" using ne by simp_all
  then have b: "0 \<le> hd edges" "last edges \<le> int n - 1"
    unfolding edges_def by auto
  have "hd edges \<le> last edges"
  proof (cases edges)
    case Nil then show ?thesis using ne by simp
  next
    case (Cons e es)
    then show ?thesis using srt by (cases "es = []") auto
  qed
  then show ?thesis using ne b by simp
qed

lemma half_dist:
  fixes x y :: real
  assumes "0 \<le> x" "x \<le> 2 * y"
  shows "\<bar>x / 2 - y / 2\<bar> \<le> y / 2"
proof -
  have "x / 2 - y / 2 \<le> y / 2" using assms by simp
  moreover have "- (x / 2 - y / 2) \<le> y / 2" using assms by simp
  ultimately show ?thesis by (rule abs_leI)
qed

lemma abs_scaled:
  fixes r a c :: real
  assumes "0 \<le> r" "\<bar>a\<bar> \<le> c"
  shows "\<bar>r * a\<bar> \<le> r * c"
proof -
  have "\<bar>r * a\<bar> = r * \<bar>a\<bar>" using assms(1) by (simp add: abs_mult)
  also have "\<dots> \<le> r * c" using assms(2,1) by (rule mult_left_mono)
  finally show ?thesis .
qed

lemma shift_abs:
  fixes f off :: real
  shows "\<bar>(f + off) / 1000000 - f / 1000000\<bar> = \<bar>off\<bar> / 1000000"
proof -
  have "(f + off) / 1000000 - f / 1000000 = ((f + off) - f) / 1000000"
    by (simp only: diff_divide_distrib)
  then have e: "(f + off) / 1000000 - f / 1000000 = off / 1000000"
    by (simp only: add_diff_cancel_left')
  show ?thesis unfolding e abs_divide by simp
qed

lemma final_step:
  fixes a rate :: real
  assumes "a \<le> rate / 2"
  shows "a / 1000000 \<le> rate / (2 * 1000000)"
proof -
  have "a / 1000000 \<le> (rate / 2) / 1000000"
    using assms by (rule divide_right_mono) simp
  then show ?thesis by simp
qed

lemma offset_eq:
  fixes resolution :: real
  shows "(if centreFreq \<le> midpoint then (resolution * (midpoint - centreFreq)) * - 1
          else resolution * (centreFreq - midpoint)) = resolution * (centreFreq - midpoint)"
  by (simp add: algebra_simps)

lemma measurements_Some:
  assumes "pwr_array \<noteq> []" "threshold \<le> pwr_array ! argmax pwr_array"
    and "sig_rate sg = Some rate" "sig_freq sg = Some freq" "sig_reportTime sg = Some rtime"
  defines "edges \<equiv> map int (filter (\<lambda>i. pwr_array ! i > pwr_array ! argmax pwr_array - 3)
                              [0..<length pwr_array])"
  shows "measurements threshold sample_rate pwr_array sg =
     Inr (Some \<lparr>reportTime = rtime,
                frequencyMHz = (freq + rate / of_nat (length pwr_array)
                   * (of_int (hd edges + last edges) / 2 - of_nat (length pwr_array) / 2)) / 1000000,
                bandwidthKHz = rate / of_nat (length pwr_array)
                   * of_int (last edges - hd edges) / 1000,
                psd_bins = map py_int pwr_array,
                spanMHz = ((freq - sample_rate / 2) / 1000000, (freq + sample_rate / 2) / 1000000),
                durationMs = sig_duration sg * 1000,
                rssidBm = pwr_array ! argmax pwr_array\<rparr>)"
proof -
  have "argmax pwr_array < length pwr_array" using argmax_max [OF assms(1)] by simp
  then have "edges \<noteq> []"
    using edges_bounds [of "argmax pwr_array" "length pwr_array"
        "\<lambda>i. pwr_array ! i > pwr_array ! argmax pwr_array - 3"]
    unfolding edges_def by simp
  then obtain e es where ed: "edges = e # es" by (cases edges) auto
  have nlt: "\<not> pwr_array ! argmax pwr_array < threshold" using assms(2) by simp
  show ?thesis
    unfolding measurements_def Let_def offset_eq edges_def [symmetric]
    using assms(1,3,4,5) nlt ed by simp
qed

text \<open>
  C7. For a non-empty power array whose peak passes the threshold, and a burst stored by
  \<open>psd\<close> at a sample rate that is not negative, \<open>measurements\<close> produces a record;
  its bandwidth is not negative, and its refined frequency differs from the hop centre
  frequency by at most half the sample rate:
  \<open>|frequencyMHz - freq_hop / 1e6| \<le> rate / (2 * 1e6)\<close>. The values are those handed
  to the format string, before they are printed.
\<close>

theorem measurements_bounds:
  assumes "0 \<le> rate" "pwr_array \<noteq> []" "threshold \<le> Max (set pwr_array)"
    and "sig_rate sg = Some rate" "sig_freq sg = Some freq_hop"
    and "sig_reportTime sg = Some rtime"
  shows "\<exists>m. measurements threshold sample_rate pwr_array sg = Inr (Some m)
           \<and> 0 \<le> bandwidthKHz m
           \<and> \<bar>frequencyMHz m - freq_hop / 1000000\<bar> \<le> rate / (2 * 1000000)"
proof -
  define n where "n = length pwr_array"
  define edges where "edges = map int (filter (\<lambda>i. pwr_array ! i > pwr_array ! argmax pwr_array - 3)
                              [0..<length pwr_array])"
  define l where "l = hd edges"
  define r where "r = last edges"
  have npos: "0 < n" using assms(2) by (simp add: n_def)
  have thr: "threshold \<le> pwr_array ! argmax pwr_array"
    using assms(2,3) by (simp add: argmax_Max)
  note m = measurements_Some [OF assms(2) thr assms(4,5,6), of sample_rate,
      folded edges_def, folded l_def r_def n_def]
  have "argmax pwr_array < length pwr_array" using argmax_max [OF assms(2)] by simp
  then have eb: "0 \<le> l" "l \<le> r" "r \<le> int n - 1"
    using edges_bounds [of "argmax pwr_array" "length pwr_array"
        "\<lambda>i. pwr_array ! i > pwr_array ! argmax pwr_array - 3"]
    unfolding edges_def l_def r_def n_def by simp_all
  have res: "0 \<le> rate / real n" using assms(1) by simp
  have "0 \<le> real_of_int (r - l)" using eb(2) by simp
  with res have "0 \<le> rate / real n * real_of_int (r - l)" by (rule mult_nonneg_nonneg)
  then have bw: "0 \<le> rate / real n * real_of_int (r - l) / 1000"
    by simp
  have "0 \<le> l + r" using eb by linarith
  then have lr0: "0 \<le> real_of_int (l + r)" by (simp only: of_int_0_le_iff)
  have "l + r \<le> 2 * int n" using eb by linarith
  then have "real_of_int (l + r) \<le> real_of_int (2 * int n)"
    by (simp only: of_int_le_iff)
  then have lr1: "real_of_int (l + r) \<le> 2 * real n"
    by simp
  have "\<bar>real_of_int (l + r) / 2 - real n / 2\<bar> \<le> real n / 2"
    using lr0 lr1 by (rule half_dist)
  with res have "\<bar>rate / real n * (real_of_int (l + r) / 2 - real n / 2)\<bar>
                    \<le> rate / real n * (real n / 2)"
    by (rule abs_scaled)
  moreover have "rate / real n * (real n / 2) = rate / 2" using npos by simp
  ultimately have off: "\<bar>rate / real n * (real_of_int (l + r) / 2 - real n / 2)\<bar> \<le> rate / 2"
    by simp
  have "\<bar>(freq_hop + rate / real n * (real_of_int (l + r) / 2 - real n / 2)) / 1000000
          - freq_hop / 1000000\<bar>
        = \<bar>rate / real n * (real_of_int (l + r) / 2 - real n / 2)\<bar> / 1000000"
    by (rule shift_abs)
  also have "\<dots> \<le> rate / (2 * 1000000)"
    using off by (rule final_step)
  finally have fr: "\<bar>(freq_hop + rate / real n * (real_of_int (l + r) / 2 - real n / 2)) / 1000000
          - freq_hop / 1000000\<bar> \<le> rate / (2 * 1000000)" .
  show ?thesis
    unfolding m using bw fr by simp
qed

theorem measurements_bounds_witness:
  "measurements (- 85) 2000000 [- 100, - 50, - 49, - 100]
      \<lparr>sig_start = 5, sig_stop = 20, sig_samples = 15, sig_duration = 15 / 2000000,
       sig_freq = Some 100000000, sig_td_array = Some [], sig_reportTime = Some 0,
       sig_rate = Some 2000000\<rparr>
    = Inr (Some \<lparr>reportTime = 0, frequencyMHz = 99.75, bandwidthKHz = 500,
                 psd_bins = [- 100, - 50, - 49, - 100], spanMHz = (99, 101),
                 durationMs = 15 / 2000, rssidBm = - 49\<rparr>)"
  using measurements_bounds [of 2000000 "[- 100, - 50, - 49, - 100]" "- 85"
      "\<lparr>sig_start = 5, sig_stop = 20, sig_samples = 15, sig_duration = 15 / 2000000,
       sig_freq = Some 100000000, sig_td_array = Some [], sig_reportTime = Some 0,
       sig_rate = Some 2000000\<rparr>" 100000000 0 2000000]
  by (simp add: measurements_def argmax_def py_int_def Let_def)

lemma span_mid:
  fixes a :: real
  shows "((a - b) / c + (a + b) / c) / 2 = a / c"
proof -
  have "(a - b) / c + (a + b) / c = (a - b + (a + b)) / c"
    by (simp only: add_divide_distrib)
  then show ?thesis by simp
qed

text \<open>
  C10. In every record that \<open>measurements\<close> produces, the two ends of \<open>spanMHz\<close> are
  the hop centre frequency less and plus half the sample rate: they are computed before
  the offset is added to the frequency, so the span is centred on the hop frequency,
  whatever \<open>frequencyMHz\<close> the same record reports.
\<close>

theorem measurements_span:
  assumes "measurements threshold sample_rate pwr_array sg = Inr (Some m)"
    and "sig_freq sg = Some freq_hop"
  shows "spanMHz m = ((freq_hop - sample_rate / 2) / 1000000,
                      (freq_hop + sample_rate / 2) / 1000000)
       \<and> (fst (spanMHz m) + snd (spanMHz m)) / 2 = freq_hop / 1000000"
proof -
  have span: "spanMHz m = ((freq_hop - sample_rate / 2) / 1000000,
                           (freq_hop + sample_rate / 2) / 1000000)"
    using assms unfolding measurements_def Let_def offset_eq
    by (auto split: if_splits list.splits option.splits)
  show ?thesis unfolding span by (simp only: fst_conv snd_conv span_mid)
qed

theorem measurements_span_witness:
  "spanMHz \<lparr>reportTime = 0, frequencyMHz = 99.75, bandwidthKHz = 500,
                 psd_bins = [- 100, - 50, - 49, - 100], spanMHz = (99, 101),
                 durationMs = 15 / 2000, rssidBm = - 49\<rparr> = (99, 101)
   \<and> measurements (- 85) 2000000 [- 100, - 50, - 49, - 100]
      \<lparr>sig_start = 5, sig_stop = 20, sig_samples = 15, sig_duration = 15 / 2000000,
       sig_freq = Some 100000000, sig_td_array = Some [], sig_reportTime = Some 0,
       sig_rate = Some 2000000\<rparr>
    = Inr (Some \<lparr>reportTime = 0, frequencyMHz = 99.75, bandwidthKHz = 500,
                 psd_bins = [- 100, - 50, - 49, - 100], spanMHz = (99, 101),
                 durationMs = 15 / 2000, rssidBm = - 49\<rparr>)"
proof -
  have m: "measurements (- 85) 2000000 [- 100, - 50, - 49, - 100]
      \<lparr>sig_start = 5, sig_stop = 20, sig_samples = 15, sig_duration = 15 / 2000000,
       sig_freq = Some 100000000, sig_td_array = Some [], sig_reportTime = Some 0,
       sig_rate = Some 2000000\<rparr>
    = Inr (Some \<lparr>reportTime = 0, frequencyMHz = 99.75, bandwidthKHz = 500,
                 psd_bins = [- 100, - 50, - 49, - 100], spanMHz = (99, 101),
                 durationMs = 15 / 2000, rssidBm = - 49\<rparr>)"
    by (simp add: measurements_def argmax_def py_int_def Let_def)
  from measurements_span [OF m, of 100000000] show ?thesis using m by simp
qed

subsection \<open>Adaptive threshold\<close>

lemma acquire_threshold:
  assumes "acquire minBurst freq rate t buffer h = Inr h'"
  shows "buffer \<noteq> []
       \<and> h_absThreshold h' = update_threshold (h_absThreshold h) (iq_of buffer)"
proof -
  have ne: "buffer \<noteq> []"
  proof
    assume "buffer = []"
    then have "acquire minBurst freq rate t buffer h = Inl ValueError"
      by (simp add: acquire_def iq_of_def detect_def)
    with assms show False by simp
  qed
  have "h_absThreshold h' = update_threshold (h_absThreshold h) (iq_of buffer)"
    using assms
    by (auto simp add: acquire_def Let_def split: sum.splits option.splits)
  with ne show ?thesis by simp
qed

lemma noise_of_nonneg: "0 \<le> noise_of iq"
  by (simp add: noise_of_def)

lemma update_threshold_step:
  assumes "iq \<noteq> []"
  shows "update_threshold thr iq = (if noise_of iq < thr then 100 * noise_of iq else thr)"
  using assms by (simp add: update_threshold_def Let_def)

lemma update_threshold_bound:
  assumes "0 \<le> thr"
  shows "0 \<le> update_threshold thr iq \<and> update_threshold thr iq \<le> 100 * thr"
  using assms noise_of_nonneg [of iq] by (auto simp add: update_threshold_def Let_def)

lemma psd_repeats_threshold:
  assumes "psd_repeats ev sp freq minBurst repeat n h w = Inr (h', w')" "0 \<le> h_absThreshold h"
  shows "0 \<le> h_absThreshold h' \<and> h_absThreshold h' \<le> 100 ^ n * h_absThreshold h"
  using assms
proof (induction n arbitrary: repeat h w)
  case 0
  then show ?case by simp
next
  case (Suc n)
  let ?w1 = "tick (Acquire repeat) w"
  let ?w2 = "tick (Poll (shutdown ev (clock ?w1))) ?w1"
  from Suc.prems(1) obtain h1 where
    a: "acquire minBurst freq (sp_sample_rate sp) (utcnow ev (clock w))
          (read_stream_into_buffer ev (clock w)) h = Inr h1"
    by (auto simp add: Let_def split: sum.splits)
  have t1: "h_absThreshold h1 = update_threshold (h_absThreshold h)
              (iq_of (read_stream_into_buffer ev (clock w)))"
    using acquire_threshold [OF a] by simp
  have b1: "0 \<le> h_absThreshold h1" "h_absThreshold h1 \<le> 100 * h_absThreshold h"
    unfolding t1 using update_threshold_bound [OF Suc.prems(2)] by simp_all
  show ?case
  proof (cases "shutdown ev (clock ?w1)")
    case True
    then have "h' = h1" using Suc.prems(1) a by (simp add: Let_def)
    moreover have "100 * h_absThreshold h \<le> 100 ^ Suc n * h_absThreshold h"
      using Suc.prems(2) by (simp add: mult_right_mono)
    ultimately show ?thesis using b1 by simp
  next
    case False
    then have "psd_repeats ev sp freq minBurst (Suc repeat) n h1 ?w2 = Inr (h', w')"
      using Suc.prems(1) a by (simp add: Let_def)
    from Suc.IH [OF this b1(1)]
    have ih: "0 \<le> h_absThreshold h'" "h_absThreshold h' \<le> 100 ^ n * h_absThreshold h1"
      by simp_all
    have "(100::real) ^ n * h_absThreshold h1 \<le> 100 ^ n * (100 * h_absThreshold h)"
      using b1(2) by (rule mult_left_mono) simp
    also have "\<dots> = 100 ^ Suc n * h_absThreshold h" by simp
    finally have "100 ^ n * h_absThreshold h1 \<le> 100 ^ Suc n * h_absThreshold h" .
    with ih(2) have "h_absThreshold h' \<le> 100 ^ Suc n * h_absThreshold h" by (rule order_trans)
    with ih(1) show ?thesis by simp
  qed
qed

lemma initial_threshold_pos: "0 < initial_threshold threshold"
  by (simp add: initial_threshold_def)

text \<open>
  C1, as the code has it. In a hop the threshold starts at
  \<open>10 ** (threshold / 10) * 2 ** 31\<close>. A repeat with
  \<open>noise = abs(mean(iq[:100]))\<close> leaves it as it is when the noise is not below it and
  sets it to \<open>100 * noise\<close> when the noise is below it, with no comparison of the new
  value to the old one or to the initial one. So after \<open>n\<close> repeats it is not
  negative and at most \<open>100 ^ n\<close> times the initial value.
\<close>

theorem threshold_within_hop:
  "(acquire minBurst freq rate t buffer h = Inr h1 \<longrightarrow>
      h_absThreshold h1 =
        (if noise_of (iq_of buffer) < h_absThreshold h then 100 * noise_of (iq_of buffer)
         else h_absThreshold h))
   \<and> (psd_repeats ev sp freq minBurst 0 n
         \<lparr>h_absThreshold = initial_threshold threshold, h_signal = initial_signal,
          h_psd_state = []\<rparr> w = Inr (h', w') \<longrightarrow>
       0 \<le> h_absThreshold h' \<and> h_absThreshold h' \<le> 100 ^ n * initial_threshold threshold)"
proof -
  have step: "h_absThreshold h1 =
        (if noise_of (iq_of buffer) < h_absThreshold h then 100 * noise_of (iq_of buffer)
         else h_absThreshold h)"
    if a: "acquire minBurst freq rate t buffer h = Inr h1"
  proof -
    from acquire_threshold [OF a] have "iq_of buffer \<noteq> []"
      and "h_absThreshold h1 = update_threshold (h_absThreshold h) (iq_of buffer)"
      by (simp_all add: iq_of_def)
    then show ?thesis by (simp add: update_threshold_step)
  qed
  have loop: "0 \<le> h_absThreshold h' \<and> h_absThreshold h' \<le> 100 ^ n * initial_threshold threshold"
    if r: "psd_repeats ev sp freq minBurst 0 n
         \<lparr>h_absThreshold = initial_threshold threshold, h_signal = initial_signal,
          h_psd_state = []\<rparr> w = Inr (h', w')"
    using psd_repeats_threshold [OF r] initial_threshold_pos [of threshold] by simp
  show ?thesis using step loop by blast
qed

theorem threshold_within_hop_witness:
  "acquire 10 100000000 2000000 0 [1, 1, 1, 1]
      \<lparr>h_absThreshold = initial_threshold (- 90), h_signal = initial_signal, h_psd_state = []\<rparr>
    = Inr \<lparr>h_absThreshold = 100, h_signal = initial_signal, h_psd_state = []\<rparr>
   \<and> noise_of (iq_of [1, 1, 1, 1]) = 1"
  using threshold_within_hop [of 10 100000000 2000000 0 "[1, 1, 1, 1]"
      "\<lparr>h_absThreshold = initial_threshold (- 90), h_signal = initial_signal, h_psd_state = []\<rparr>"
      "\<lparr>h_absThreshold = 100, h_signal = initial_signal, h_psd_state = []\<rparr>"]
  by (simp add: acquire_def update_threshold_def noise_of_def np_mean_def iq_of_def detect_def
        np_max_def initial_threshold_def powr_neg_numeral Let_def)

text \<open>
  C1, as the claim states it, fails: with a threshold of -90 dBm the initial value is
  about 2.147; a first buffer of samples \<open>1 + 0j\<close> has noise 1, which is below it, and
  the threshold becomes 100: it has increased, above the initial ceiling.
\<close>

theorem threshold_rises_counterexample:
  "acquire 10 100000000 2000000 0 [1, 1, 1, 1]
      \<lparr>h_absThreshold = initial_threshold (- 90), h_signal = initial_signal, h_psd_state = []\<rparr>
    = Inr \<lparr>h_absThreshold = 100, h_signal = initial_signal, h_psd_state = []\<rparr>
   \<and> initial_threshold (- 90) = 2147483648 / 1000000000
   \<and> \<not> (100 \<le> initial_threshold (- 90))"
  by (simp add: acquire_def update_threshold_def noise_of_def np_mean_def iq_of_def detect_def
        np_max_def initial_threshold_def powr_neg_numeral Let_def)

subsection \<open>One record per hop\<close>



lemma trace_tick: "trace (tick e w) = trace w @ [(clock w, e)]"
  by (simp add: tick_def)

lemma clock_tick: "clock (tick e w) = Suc (clock w)"
  by (simp add: tick_def)

lemma count_tick: "count (tick e w) = count w"
  by (simp add: tick_def)

lemma psd_repeats_trace_both:
  "(psd_repeats ev sp freq minBurst repeat n h w = Inr (h', w') \<longrightarrow>
      (\<exists>evs. trace w' = trace w @ evs \<and> (\<forall>x\<in>set evs. stage (snd x) \<in> {0, 3})))
   \<and> (psd_repeats ev sp freq minBurst repeat n h w = Inl (e, w') \<longrightarrow> e \<noteq> OSError \<and> 
      (\<exists>evs. trace w' = trace w @ evs \<and> (\<forall>x\<in>set evs. stage (snd x) \<in> {0, 3})))"
proof (induction n arbitrary: repeat h w)
  case 0
  show ?case by simp
next
  case (Suc n)
  let ?w1 = "tick (Acquire repeat) w"
  let ?a = "acquire minBurst freq (sp_sample_rate sp) (utcnow ev (clock w))
          (read_stream_into_buffer ev (clock w)) h"
  show ?case
  proof (cases ?a)
    case (Inl err)
    have "err \<noteq> OSError" using Inl
      by (auto simp add: acquire_def detect_def Let_def split: sum.splits option.splits list.splits if_splits)
    then show ?thesis using Inl by (auto simp add: Let_def trace_tick)
  next
    case (Inr h1)
    let ?w2 = "tick (Poll (shutdown ev (clock ?w1))) ?w1"
    have t2: "trace ?w2 = trace w @ [(clock w, Acquire repeat), (clock ?w1, Poll (shutdown ev (clock ?w1)))]"
      by (simp add: trace_tick)
    show ?thesis
    proof (cases "shutdown ev (clock ?w1)")
      case True
      then show ?thesis using Inr t2 by (auto simp add: Let_def)
    next
      case False
      have eq: "psd_repeats ev sp freq minBurst repeat (Suc n) h w
            = psd_repeats ev sp freq minBurst (Suc repeat) n h1 ?w2"
        using Inr False by (simp add: Let_def)
      from Suc.IH [of "Suc repeat" h1 ?w2] show ?thesis
        unfolding eq t2 by force
    qed
  qed
qed

lemma psd_repeats_trace:
  assumes "psd_repeats ev sp freq minBurst repeat n h w = Inr (h', w')"
  shows "\<exists>evs. trace w' = trace w @ evs \<and> (\<forall>x\<in>set evs. stage (snd x) \<in> {0, 3})"
  using assms psd_repeats_trace_both by blast

lemma psd_repeats_trace_err:
  assumes "psd_repeats ev sp freq minBurst repeat n h w = Inl (e, w')"
  shows "e \<noteq> OSError
       \<and> (\<exists>evs. trace w' = trace w @ evs \<and> (\<forall>x\<in>set evs. stage (snd x) \<in> {0, 3}))"
  using assms psd_repeats_trace_both by blast

lemma psd_trace_both:
  "(psd ev sp freq w = Inr (r, w') \<longrightarrow>
      (\<exists>evs. trace w' = trace w @ evs \<and> (\<forall>x\<in>set evs. stage (snd x) \<in> {0, 2, 3})))
   \<and> (psd ev sp freq w = Inl (e, w') \<longrightarrow> 
      (\<exists>evs. trace w' = trace w @ evs \<and> (\<forall>x\<in>set evs. stage (snd x) \<in> {0, 2, 3})))"
proof -
  let ?w0 = "tick (Hop freq) w"
  let ?h0 = "\<lparr>h_absThreshold = initial_threshold (sp_threshold sp),
                h_signal = initial_signal, h_psd_state = []\<rparr>"
  let ?mb = "py_int (0.000005 * sp_sample_rate sp)"
  have ext: "\<exists>evs. trace w1 = trace w @ evs \<and> (\<forall>x\<in>set evs. stage (snd x) \<in> {0, 2, 3})"
    if "\<exists>evs. trace w1 = trace ?w0 @ evs \<and> (\<forall>x\<in>set evs. stage (snd x) \<in> {0, 3})" for w1
  proof -
    from that obtain evs where "trace w1 = trace ?w0 @ evs" "\<forall>x\<in>set evs. stage (snd x) \<in> {0, 3}"
      by blast
    then have "trace w1 = trace w @ ((clock w, Hop freq) # evs)
        \<and> (\<forall>x\<in>set ((clock w, Hop freq) # evs). stage (snd x) \<in> {0, 2, 3})"
      by (auto simp add: trace_tick)
    then show ?thesis by blast
  qed
  show ?thesis
  proof (cases "psd_repeats ev sp freq ?mb 0 (sp_buffer_repeats sp) ?h0 ?w0")
    case (Inl x)
    obtain err w1 where x: "x = (err, w1)" by (cases x)
    from Inl x have "psd_repeats ev sp freq ?mb 0 (sp_buffer_repeats sp) ?h0 ?w0 = Inl (err, w1)"
      by simp
    from psd_repeats_trace_err [OF this]
    have "\<exists>evs. trace w1 = trace w @ evs \<and> (\<forall>x\<in>set evs. stage (snd x) \<in> {0, 2, 3})"
      using ext by blast
    then show ?thesis using Inl x by (auto simp add: psd_def Let_def)
  next
    case (Inr y)
    obtain h1 w1 where y: "y = (h1, w1)" by (cases y)
    from Inr y have "psd_repeats ev sp freq ?mb 0 (sp_buffer_repeats sp) ?h0 ?w0 = Inr (h1, w1)"
      by simp
    from psd_repeats_trace [OF this]
    have "\<exists>evs. trace w1 = trace w @ evs \<and> (\<forall>x\<in>set evs. stage (snd x) \<in> {0, 2, 3})"
      using ext by blast
    then show ?thesis using Inr y by (auto simp add: psd_def Let_def)
  qed
qed

lemma psd_trace:
  assumes "psd ev sp freq w = Inr (r, w')"
  shows "\<exists>evs. trace w' = trace w @ evs \<and> (\<forall>x\<in>set evs. stage (snd x) \<in> {0, 2, 3})"
  using assms psd_trace_both by blast

lemma psd_trace_err:
  assumes "psd ev sp freq w = Inl (e, w')"
  shows "\<exists>evs. trace w' = trace w @ evs \<and> (\<forall>x\<in>set evs. stage (snd x) \<in> {0, 2, 3})"
  using assms psd_trace_both by blast

lemma psd_not_OSError: "psd ev sp freq w = Inl (e, w') \<Longrightarrow> e \<noteq> OSError"
proof -
  assume a: "psd ev sp freq w = Inl (e, w')"
  let ?w0 = "tick (Hop freq) w"
  let ?h0 = "\<lparr>h_absThreshold = initial_threshold (sp_threshold sp),
                h_signal = initial_signal, h_psd_state = []\<rparr>"
  let ?mb = "py_int (0.000005 * sp_sample_rate sp)"
  show ?thesis
  proof (cases "psd_repeats ev sp freq ?mb 0 (sp_buffer_repeats sp) ?h0 ?w0")
    case (Inl x)
    then have "x = (e, w')" using a by (simp add: psd_def Let_def)
    with Inl have "psd_repeats ev sp freq ?mb 0 (sp_buffer_repeats sp) ?h0 ?w0 = Inl (e, w')"
      by simp
    from psd_repeats_trace_err [OF this] show ?thesis by simp
  next
    case (Inr y)
    then show ?thesis using a by (auto simp add: psd_def Let_def split: prod.splits if_splits)
  qed
qed




lemma sent_count_count [simp]: "sent_count (w\<lparr>count := c\<rparr>) = sent_count w"
  by (simp add: sent_count_def)











lemma min_burst_2: "py_int 2 = 2" by (simp add: py_int_def)

lemma detect_on_burst_a:
  "detect 2 0 (iq_of burst_a)
    = Inr (Some \<lparr>b_start = 1, b_stop = 4, b_safestart = 0, b_safestop = 6\<rparr>)"
  by (simp add: detect_def iq_of_def burst_a_def np_max_def burst_idx_def Let_def)


lemma threshold_burst_a:
  "update_threshold (initial_threshold (- 90)) (iq_of burst_a) = 0"
  by (simp add: update_threshold_def noise_of_def np_mean_def iq_of_def burst_a_def
        initial_threshold_def powr_neg_numeral Let_def)


lemma acquire_burst_a:
  "acquire 2 freq 400000 t burst_a
     \<lparr>h_absThreshold = initial_threshold (- 90), h_signal = initial_signal, h_psd_state = []\<rparr>
   = Inr \<lparr>h_absThreshold = 0,
          h_signal = \<lparr>sig_start = 1, sig_stop = 4, sig_samples = 3, sig_duration = 3 / 400000,
            sig_freq = Some freq, sig_td_array = Some [0, 5, 5, 5, 5, 0],
            sig_reportTime = Some t, sig_rate = Some 400000\<rparr>,
          h_psd_state = [ [5, - 5, 5] ]\<rparr>"
  by (simp add: acquire_def threshold_burst_a detect_on_burst_a Let_def store_burst_def
        initial_signal_def)
     (simp add: py_slice_def py_bound_def iq_of_def burst_a_def)



lemma measurements_four_bins:
  "measurements (- 90) 400000 [- 100, - 50, - 49, - 100]
      \<lparr>sig_start = a, sig_stop = b, sig_samples = n, sig_duration = d,
       sig_freq = Some freq, sig_td_array = td, sig_reportTime = Some t,
       sig_rate = Some 400000\<rparr>
    = Inr (Some \<lparr>reportTime = t, frequencyMHz = (freq - 50000) / 1000000, bandwidthKHz = 100,
                 psd_bins = [- 100, - 50, - 49, - 100],
                 spanMHz = ((freq - 200000) / 1000000, (freq + 200000) / 1000000),
                 durationMs = d * 1000, rssidBm = - 49\<rparr>)"
  by (simp add: measurements_def argmax_def py_int_def Let_def)





subsection \<open>A send that fails\<close>

lemma send_failed_tick: "send_failed (tick e w) = (send_failed w \<or> e = SendFailed)"
  by (auto simp add: send_failed_def trace_tick)

lemma send_failed_count: "send_failed (w\<lparr>count := c\<rparr>) = send_failed w"
  by (simp add: send_failed_def)

lemma send_failed_initial: "\<not> send_failed initial_world"
  by (simp add: send_failed_def initial_world_def)

lemma send_failed_ext:
  assumes "\<exists>evs. trace w' = trace w @ evs \<and> (\<forall>x\<in>set evs. stage (snd x) \<in> {0, 2, 3})"
    and "\<not> send_failed w"
  shows "\<not> send_failed w'"
proof
  assume a: "send_failed w'"
  from assms(1) obtain evs where evs: "trace w' = trace w @ evs"
    "\<forall>x\<in>set evs. stage (snd x) \<in> {0, 2, 3}" by blast
  from a evs(1) assms(2) have "SendFailed \<in> snd ` set evs"
    by (auto simp add: send_failed_def)
  then obtain x where "x \<in> set evs" "snd x = SendFailed" by auto
  then have "stage SendFailed \<in> {0, 2, 3}" using evs(2) by metis
  then show False by simp
qed

lemma measurements_not_OSError:
  "measurements threshold rate pwr_array sg = Inl err \<Longrightarrow> err \<noteq> OSError"
  by (auto simp add: measurements_def Let_def split: if_splits list.splits option.splits)

lemma sweep_hop_failed:
  assumes "\<not> send_failed w"
  shows "(sweep_hop ev sp freq w = Inr w' \<longrightarrow> \<not> send_failed w')
       \<and> (sweep_hop ev sp freq w = Inl (e, w') \<longrightarrow>
            (e = OSError \<and> (\<exists>w1. \<not> send_failed w1 \<and> w' = tick SendFailed w1))
          \<or> (e \<noteq> OSError \<and> \<not> send_failed w'))"
proof (cases "psd ev sp freq w")
  case (Inl x)
  obtain err w1 where x: "x = (err, w1)" by (cases x)
  from Inl x have p: "psd ev sp freq w = Inl (err, w1)" by simp
  from psd_trace_err [OF p] assms have "\<not> send_failed w1"
    by (rule send_failed_ext)
  moreover have "err \<noteq> OSError" using p by (rule psd_not_OSError)
  ultimately show ?thesis using p by (auto simp add: sweep_hop_def)
next
  case (Inr y)
  obtain blocks sg w1 where y: "y = ((blocks, sg), w1)" by (cases y) auto
  from Inr y have p: "psd ev sp freq w = Inr ((blocks, sg), w1)" by simp
  from psd_trace [OF p] assms have nf: "\<not> send_failed w1"
    by (rule send_failed_ext)
  show ?thesis
    unfolding sweep_hop_def p
    using nf
    by (auto simp add: send_failed_tick send_failed_count Let_def
          dest: measurements_not_OSError split: sum.splits option.splits if_splits)
qed

lemma sweep_hops_failed:
  assumes "\<not> send_failed w"
  shows "(sweep_hops ev sp freqs w = Inr w' \<longrightarrow> \<not> send_failed w')
       \<and> (sweep_hops ev sp freqs w = Inl (e, w') \<longrightarrow>
            (e = OSError \<and> (\<exists>w1. \<not> send_failed w1 \<and> w' = tick SendFailed w1))
          \<or> (e \<noteq> OSError \<and> \<not> send_failed w'))"
  using assms
proof (induction freqs arbitrary: w)
  case Nil
  then show ?case by auto
next
  case (Cons freq rest)
  show ?case
  proof (cases "sweep_hop ev sp freq w")
    case (Inl x)
    then have eq: "sweep_hops ev sp (freq # rest) w = Inl x" by simp
    obtain err w1 where x: "x = (err, w1)" by (cases x)
    show ?thesis
      unfolding eq
        using sweep_hop_failed [OF Cons.prems, where ev = ev and sp = sp and freq = freq
            and w' = w' and e = e] Inl
        by auto
  next
    case (Inr w1)
    let ?w2 = "tick (Poll (shutdown ev (clock w1))) w1"
    have nf1: "\<not> send_failed w1"
      using sweep_hop_failed [OF Cons.prems, where ev = ev and sp = sp and freq = freq
          and w' = w1] Inr by simp
    then have nf2: "\<not> send_failed ?w2" by (simp add: send_failed_tick)
    show ?thesis
    proof (cases "shutdown ev (clock w1)")
      case True
      then have "sweep_hops ev sp (freq # rest) w = Inr ?w2" using Inr by (simp add: Let_def)
      then show ?thesis using nf2 by auto
    next
      case False
      then have "sweep_hops ev sp (freq # rest) w = sweep_hops ev sp rest ?w2"
        using Inr by (simp add: Let_def)
      then show ?thesis using Cons.IH [OF nf2] by simp
    qed
  qed
qed

lemma sweep_runs_failed:
  assumes "\<not> send_failed w"
  shows "(sweep_runs ev sp freqs runs limit fuel run w = Some (Inr w') \<longrightarrow> \<not> send_failed w')
       \<and> (sweep_runs ev sp freqs runs limit fuel run w = Some (Inl (e, w')) \<longrightarrow>
            (e = OSError \<and> (\<exists>w1. \<not> send_failed w1 \<and> w' = tick SendFailed w1))
          \<or> (e \<noteq> OSError \<and> \<not> send_failed w'))"
  using assms
proof (induction fuel arbitrary: run w)
  case 0
  then show ?case by simp
next
  case (Suc fuel)
  let ?flag = "shutdown ev (clock w)"
  let ?w0 = "tick (Poll ?flag) w"
  let ?w1 = "tick (RunStart (Suc run)) ?w0"
  have nf0: "\<not> send_failed ?w0" using Suc.prems by (simp add: send_failed_tick)
  then have nf1: "\<not> send_failed ?w1" by (simp add: send_failed_tick)
  show ?case
  proof (cases "\<not> ?flag \<and> (runs = 0 \<or> run < runs)")
    case False
    then have "sweep_runs ev sp freqs runs limit (Suc fuel) run w = Some (Inr ?w0)"
      by (auto simp add: Let_def)
    then show ?thesis using nf0 by auto
  next
    case True
    show ?thesis
    proof (cases "sweep_hops ev sp freqs ?w1")
      case (Inl x)
      then have eq: "sweep_runs ev sp freqs runs limit (Suc fuel) run w = Some (Inl x)"
        using True by (simp add: Let_def)
      show ?thesis
        unfolding eq
        using sweep_hops_failed [OF nf1, where ev = ev and sp = sp and freqs = freqs
            and w' = w' and e = e] Inl
        by auto
    next
      case (Inr w2)
      have nf2: "\<not> send_failed w2"
        using sweep_hops_failed [OF nf1, where ev = ev and sp = sp and freqs = freqs
            and w' = w2] Inr by simp
      show ?thesis
      proof (cases "limit \<and> time_exceeded ev (clock w2)")
        case t: True
        then have "sweep_runs ev sp freqs runs limit (Suc fuel) run w = Some (Inr w2)"
          using True Inr by (simp add: Let_def)
        then show ?thesis using nf2 by auto
      next
        case f: False
        then have "sweep_runs ev sp freqs runs limit (Suc fuel) run w
                     = sweep_runs ev sp freqs runs limit fuel (Suc run) w2"
          using True Inr by (auto simp add: Let_def)
        then show ?thesis using Suc.IH [OF nf2] by simp
      qed
    qed
  qed
qed

lemma create_buffer_not_OSError:
  "create_buffer rate bins repeats base max_buffer_size = Inl e \<Longrightarrow> e \<noteq> OSError"
  by (auto simp add: create_buffer_def Let_def split: if_splits)

text \<open>
  C8, as the code has it. \<open>sendto\<close> is called inside no \<open>try\<close> with an \<open>except\<close>:
  when it raises in a hop, the loop over the hops is left at once with that error,
  whatever hops remain; and \<open>sweep\<close> as a whole raises the error of a send exactly when
  a send has failed, the failed send being the last event before \<open>stop\<close>, which the
  \<open>finally\<close> clause runs. Nothing is logged and no later hop or run is started.
\<close>

theorem sendto_failure_leaves_sweep:
  "(psd ev sp freq w0 = Inr ((blocks, sg), w1) \<and> - 1 < sig_start sg
      \<and> measurements (sp_threshold sp) (sp_sample_rate sp) (psd_result ev freq blocks) sg
          = Inr (Some json)
      \<and> \<not> sendto_ok ev (clock w1)
    \<longrightarrow> sweep_hops ev sp (freq # rest) w0 = Inl (OSError, tick SendFailed w1))
   \<and> (sweep ev rate thresh min_freq max_freq bins repeats runs limit overlap lnb_lo
          max_buffer_size fuel = Some (res, w)
    \<longrightarrow> (send_failed w \<longleftrightarrow> res = Some OSError)
      \<and> (send_failed w \<longrightarrow>
            (\<exists>w1. \<not> send_failed w1 \<and> w = tick Stop (tick SendFailed w1))))"
proof -
  have origin: "sweep_hops ev sp (freq # rest) w0 = Inl (OSError, tick SendFailed w1)"
    if "psd ev sp freq w0 = Inr ((blocks, sg), w1)" "- 1 < sig_start sg"
      "measurements (sp_threshold sp) (sp_sample_rate sp) (psd_result ev freq blocks) sg
          = Inr (Some json)"
      "\<not> sendto_ok ev (clock w1)"
    using that by (simp add: sweep_hop_def)
  have leaves: "(send_failed w \<longleftrightarrow> res = Some OSError)
      \<and> (send_failed w \<longrightarrow>
            (\<exists>w1. \<not> send_failed w1 \<and> w = tick Stop (tick SendFailed w1)))"
    if s: "sweep ev rate thresh min_freq max_freq bins repeats runs limit overlap lnb_lo
          max_buffer_size fuel = Some (res, w)"
  proof (cases "create_buffer rate bins repeats (base_buffer_len ev) max_buffer_size")
    case (Inl e)
    then have "res = Some e" "w = initial_world" using s by (simp_all add: sweep_def)
    moreover have "e \<noteq> OSError" using Inl by (rule create_buffer_not_OSError)
    ultimately show ?thesis by (simp add: send_failed_initial)
  next
    case (Inr size)
    obtain brepeats bsize where size: "size = (brepeats, bsize)" by (cases size)
    let ?sp = "\<lparr>sp_sample_rate = rate, sp_threshold = thresh, sp_buffer_repeats = nat brepeats\<rparr>"
    show ?thesis
    proof (cases "freq_plan rate (min_freq - lnb_lo) (max_freq - lnb_lo) bins overlap")
      case (Inl e)
      then have "res = Some UnboundLocalError" "w = tick Stop initial_world"
        using s Inr size by (simp_all add: sweep_def)
      then show ?thesis by (simp add: send_failed_tick send_failed_initial)
    next
      case fp: (Inr freq_list)
      show ?thesis
      proof (cases "sweep_runs ev ?sp freq_list runs limit fuel 0 initial_world")
        case None
        then show ?thesis using s Inr size fp by (simp add: sweep_def)
      next
        case (Some r)
        show ?thesis
        proof (cases r)
          case (Inl x)
          obtain e w2 where x: "x = (e, w2)" by (cases x)
          have rw: "res = Some e" "w = tick Stop w2"
            using s Inr size fp Some Inl x by (simp_all add: sweep_def)
          from sweep_runs_failed [OF send_failed_initial, where ev = ev and sp = ?sp
              and freqs = freq_list and runs = runs and limit = limit and fuel = fuel
              and run = 0 and e = e and w' = w2] Some Inl x
          have "(e = OSError \<and> (\<exists>w1. \<not> send_failed w1 \<and> w2 = tick SendFailed w1))
              \<or> (e \<noteq> OSError \<and> \<not> send_failed w2)"
            by simp
          then show ?thesis using rw by (auto simp add: send_failed_tick)
        next
          case (Inr w2)
          have rw: "res = None" "w = tick Stop w2"
            using s \<open>create_buffer rate bins repeats (base_buffer_len ev) max_buffer_size = Inr size\<close>
              size fp Some Inr by (simp_all add: sweep_def)
          from sweep_runs_failed [OF send_failed_initial, where ev = ev and sp = ?sp
              and freqs = freq_list and runs = runs and limit = limit and fuel = fuel
              and run = 0 and w' = w2] Some Inr
          have "\<not> send_failed w2" by simp
          then show ?thesis using rw by (simp add: send_failed_tick)
        qed
      qed
    qed
  qed
  show ?thesis using origin leaves by blast
qed

lemma create_buffer_small: "create_buffer 400000 9 1 9 0 = Inr (1, 9)"
  by (simp add: create_buffer_def required_size_def aligned_max_def clamped_def
        effective_max_def default_max_buffer_size_def ceil_quot_def)

lemma freq_plan_two_hops:
  "freq_plan 400000 100000000 100800000 9 0 = Inr [100200000, 100600000]"
  by (simp add: freq_plan_def nearest_freq_def bins_to_bin_size_def py_round_def upto.simps)

lemma psd_send_fails:
  "psd send_fails \<lparr>sp_sample_rate = 400000, sp_threshold = - 90, sp_buffer_repeats = Suc 0\<rparr>
      freq w
   = Inr (([ [5, - 5, 5] ],
           \<lparr>sig_start = 1, sig_stop = 4, sig_samples = 3, sig_duration = 3 / 400000,
            sig_freq = Some freq, sig_td_array = Some [0, 5, 5, 5, 5, 0],
            sig_reportTime = Some (real (Suc (clock w))), sig_rate = Some 400000\<rparr>),
          tick (Poll False) (tick (Acquire 0) (tick (Hop freq) w)))"
  by (simp add: psd_def send_fails_def min_burst_2 clock_tick acquire_burst_a Let_def)

lemma sweep_hop_send_fails:
  "sweep_hop send_fails
      \<lparr>sp_sample_rate = 400000, sp_threshold = - 90, sp_buffer_repeats = Suc 0\<rparr> freq w
   = Inl (OSError, tick SendFailed (tick (Poll False) (tick (Acquire 0) (tick (Hop freq) w))))"
  unfolding sweep_hop_def psd_send_fails
  by (simp add: measurements_four_bins send_fails_def)

lemma sweep_send_fails:
  "sweep send_fails 400000 (- 90) 100000000 100800000 9 1 1 False 0 0 0 2
    = Some (Some OSError,
        \<lparr>clock = 7,
         trace = [(0, Poll False), (1, RunStart 1), (2, Hop 100200000), (3, Acquire 0),
                  (4, Poll False), (5, SendFailed), (6, Stop)],
         count = 0\<rparr>)"
proof -
  have "sweep_runs send_fails
          \<lparr>sp_sample_rate = 400000, sp_threshold = - 90, sp_buffer_repeats = Suc 0\<rparr>
          [100200000, 100600000] 1 False (Suc (Suc 0)) 0 initial_world
        = Some (Inl (OSError, tick SendFailed (tick (Poll False) (tick (Acquire 0)
            (tick (Hop 100200000) (tick (RunStart 1) (tick (Poll False) initial_world)))))))"
    by (simp add: sweep_hop_send_fails Let_def) (simp add: send_fails_def)
  then show ?thesis
    by (simp add: sweep_def send_fails_def [THEN arg_cong, of base_buffer_len]
          create_buffer_small freq_plan_two_hops numeral_2_eq_2 tick_def initial_world_def)
qed

theorem sendto_failure_leaves_sweep_witness:
  "sweep send_fails 400000 (- 90) 100000000 100800000 9 1 1 False 0 0 0 2
     = Some (Some OSError,
        \<lparr>clock = 7,
         trace = [(0, Poll False), (1, RunStart 1), (2, Hop 100200000), (3, Acquire 0),
                  (4, Poll False), (5, SendFailed), (6, Stop)],
         count = 0\<rparr>)
   \<and> send_failed
        \<lparr>clock = 7,
         trace = [(0, Poll False), (1, RunStart 1), (2, Hop 100200000), (3, Acquire 0),
                  (4, Poll False), (5, SendFailed), (6, Stop)],
         count = 0\<rparr>"
  using sendto_failure_leaves_sweep [where ev = send_fails and rate = 400000
      and thresh = "- 90" and min_freq = 100000000 and max_freq = 100800000 and bins = 9
      and repeats = 1 and runs = 1 and limit = False and overlap = 0 and lnb_lo = 0
      and max_buffer_size = 0 and fuel = 2 and res = "Some OSError"
      and w = "\<lparr>clock = 7,
         trace = [(0, Poll False), (1, RunStart 1), (2, Hop 100200000), (3, Acquire 0),
                  (4, Poll False), (5, SendFailed), (6, Stop)],
         count = 0\<rparr>"]
    sweep_send_fails
  by simp

text \<open>
  C8, as the claim states it, fails: two hops are planned, the send of the first hop
  raises at program point 5, and \<open>sweep\<close> ends with that error after \<open>stop\<close>; the hop
  at 100.6 MHz never starts.
\<close>

theorem sendto_failure_counterexample:
  "freq_plan 400000 100000000 100800000 9 0 = Inr [100200000, 100600000]
   \<and> sendto_ok send_fails 5 = False
   \<and> sweep send_fails 400000 (- 90) 100000000 100800000 9 1 1 False 0 0 0 2
     = Some (Some OSError,
        \<lparr>clock = 7,
         trace = [(0, Poll False), (1, RunStart 1), (2, Hop 100200000), (3, Acquire 0),
                  (4, Poll False), (5, SendFailed), (6, Stop)],
         count = 0\<rparr>)"
proof -
  have "sendto_ok send_fails 5 = False" by (simp add: send_fails_def)
  then show ?thesis using freq_plan_two_hops sweep_send_fails by simp
qed

subsection \<open>Shutdown\<close>

lemma late_events_tick:
  "late_events T (tick e w) = late_events T w @ (if T \<le> clock w then [e] else [])"
  by (simp add: late_events_def trace_tick)

lemma late_stages_tick:
  "late_stages T (tick e w)
     = late_stages T w @ (if T \<le> clock w \<and> 0 < stage e then [stage e] else [])"
  by (simp add: late_stages_def late_events_tick)

lemma well_timed_tick: "well_timed w \<Longrightarrow> well_timed (tick e w)"
  by (auto simp add: well_timed_def tick_def list_all_iff)

lemma late_stages_early:
  assumes "well_timed w" "clock w \<le> T"
  shows "late_stages T w = []"
proof -
  have "filter (\<lambda>(t, e). T \<le> t) (trace w) = []"
    using assms by (auto simp add: well_timed_def list_all_iff filter_empty_conv)
  then show ?thesis by (simp add: late_stages_def late_events_def)
qed

lemma in_order_early:
  assumes "well_timed w" "clock w \<le> T"
  shows "in_order T k w"
  using assms by (simp add: in_order_def late_stages_early)

lemma in_order_well_timed: "in_order T k w \<Longrightarrow> well_timed w"
  by (simp add: in_order_def)

lemma in_order_mono:
  assumes "in_order T k w" "k \<le> k'"
  shows "in_order T k' w"
  using assms by (auto simp add: in_order_def list_all_iff)

lemma in_order_poll:
  assumes "in_order T k w"
  shows "in_order T k (tick (Poll b) w)"
  using assms by (simp add: in_order_def late_stages_tick well_timed_tick)

lemma in_order_tick:
  assumes "in_order T k w" "stage e = k"
  shows "in_order T (Suc k) (tick e w)"
  using assms
  by (auto simp add: in_order_def late_stages_tick well_timed_tick sorted_wrt_append
        list_all_iff less_Suc_eq)

lemma in_order_count: "in_order T k (w\<lparr>count := c\<rparr>) = in_order T k w"
  by (simp add: in_order_def well_timed_def late_stages_def late_events_def)

lemma in_order_initial: "in_order T k initial_world"
  by (simp add: in_order_def well_timed_def late_stages_def late_events_def initial_world_def)

lemma psd_repeats_order:
  assumes "\<forall>t. shutdown ev t = (T \<le> t)" "in_order T 3 w"
  shows "(psd_repeats ev sp freq minBurst repeat n h w = Inr (h', w')
            \<longrightarrow> in_order T 4 w' \<and> clock w \<le> clock w')
       \<and> (psd_repeats ev sp freq minBurst repeat n h w = Inl (e, w')
            \<longrightarrow> in_order T 4 w' \<and> clock w \<le> clock w')"
  using assms(2)
proof (induction n arbitrary: repeat h w)
  case 0
  then show ?case by (auto intro: in_order_mono)
next
  case (Suc n)
  let ?w1 = "tick (Acquire repeat) w"
  let ?flag = "shutdown ev (clock ?w1)"
  let ?w2 = "tick (Poll ?flag) ?w1"
  let ?a = "acquire minBurst freq (sp_sample_rate sp) (utcnow ev (clock w))
          (read_stream_into_buffer ev (clock w)) h"
  have o1: "in_order T 4 ?w1"
    using in_order_tick [OF Suc.prems, of "Acquire repeat"] by (simp add: eval_nat_numeral)
  then have o2: "in_order T 4 ?w2" by (rule in_order_poll)
  show ?case
  proof (cases ?a)
    case (Inl err)
    then show ?thesis using o1 by (auto simp add: Let_def clock_tick)
  next
    case (Inr h1)
    show ?thesis
    proof (cases ?flag)
      case True
      then show ?thesis using Inr o2 by (auto simp add: Let_def clock_tick)
    next
      case False
      then have "clock ?w2 \<le> T" using assms(1) by (simp add: clock_tick)
      moreover have "well_timed ?w2" using o2 by (rule in_order_well_timed)
      ultimately have o3: "in_order T 3 ?w2" by (simp add: in_order_early)
      have eq: "psd_repeats ev sp freq minBurst repeat (Suc n) h w
            = psd_repeats ev sp freq minBurst (Suc repeat) n h1 ?w2"
        using Inr False by (simp add: Let_def)
      have "clock w \<le> clock ?w2" by (simp add: clock_tick)
      then show ?thesis
        unfolding eq using Suc.IH [OF o3, of "Suc repeat" h1] by auto
    qed
  qed
qed

lemma psd_order:
  assumes "\<forall>t. shutdown ev t = (T \<le> t)" "in_order T 2 w"
  shows "(psd ev sp freq w = Inr (r, w') \<longrightarrow> in_order T 4 w' \<and> clock w \<le> clock w')
       \<and> (psd ev sp freq w = Inl (e, w') \<longrightarrow> in_order T 4 w' \<and> clock w \<le> clock w')"
proof -
  let ?w0 = "tick (Hop freq) w"
  let ?h0 = "\<lparr>h_absThreshold = initial_threshold (sp_threshold sp),
                h_signal = initial_signal, h_psd_state = []\<rparr>"
  let ?mb = "py_int (0.000005 * sp_sample_rate sp)"
  have o0: "in_order T 3 ?w0"
    using in_order_tick [OF assms(2), of "Hop freq"] by (simp add: eval_nat_numeral)
  have c0: "clock w \<le> clock ?w0" by (simp add: clock_tick)
  show ?thesis
  proof (cases "psd_repeats ev sp freq ?mb 0 (sp_buffer_repeats sp) ?h0 ?w0")
    case (Inl x)
    obtain err w1 where x: "x = (err, w1)" by (cases x)
    from psd_repeats_order [OF assms(1) o0, where sp = sp and freq = freq and minBurst = ?mb
        and repeat = 0 and n = "sp_buffer_repeats sp" and h = ?h0 and e = err and w' = w1]
      Inl x
    have "in_order T 4 w1 \<and> clock ?w0 \<le> clock w1" by simp
    then show ?thesis using Inl x c0 by (auto simp add: psd_def Let_def)
  next
    case (Inr y)
    obtain h1 w1 where y: "y = (h1, w1)" by (cases y)
    from psd_repeats_order [OF assms(1) o0, where sp = sp and freq = freq and minBurst = ?mb
        and repeat = 0 and n = "sp_buffer_repeats sp" and h = ?h0 and h' = h1 and w' = w1]
      Inr y
    have "in_order T 4 w1 \<and> clock ?w0 \<le> clock w1" by simp
    then show ?thesis using Inr y c0 by (auto simp add: psd_def Let_def split: if_splits)
  qed
qed

lemma sweep_hop_order:
  assumes "\<forall>t. shutdown ev t = (T \<le> t)" "in_order T 2 w"
  shows "(sweep_hop ev sp freq w = Inr w' \<longrightarrow> in_order T 5 w' \<and> clock w \<le> clock w')
       \<and> (sweep_hop ev sp freq w = Inl (e, w') \<longrightarrow> in_order T 5 w' \<and> clock w \<le> clock w')"
proof (cases "psd ev sp freq w")
  case (Inl x)
  obtain err w1 where x: "x = (err, w1)" by (cases x)
  from psd_order [OF assms, where sp = sp and freq = freq and e = err and w' = w1] Inl x
  have "in_order T 4 w1" "clock w \<le> clock w1" by simp_all
  then have "in_order T 5 w1 \<and> clock w \<le> clock w1" by (auto intro: in_order_mono)
  then show ?thesis using Inl x by (auto simp add: sweep_hop_def)
next
  case (Inr y)
  obtain blocks sg w1 where y: "y = ((blocks, sg), w1)" by (cases y) auto
  from psd_order [OF assms, where sp = sp and freq = freq and r = "(blocks, sg)" and w' = w1]
    Inr y
  have o4: "in_order T 4 w1" and c: "clock w \<le> clock w1" by simp_all
  have o5: "in_order T 5 w1" using o4 by (rule in_order_mono) simp
  have sent: "in_order T 5 ((tick (Sent n json) w1)\<lparr>count := m\<rparr>)" for n json m
    using in_order_tick [OF o4, of "Sent n json"] by (simp add: in_order_count eval_nat_numeral)
  have printed: "in_order T 5 (tick (Sent n json) w1)" for n json
    using in_order_tick [OF o4, of "Sent n json"] by (simp add: eval_nat_numeral)
  have failed: "in_order T 5 (tick SendFailed w1)"
    using in_order_tick [OF o4, of SendFailed] by (simp add: eval_nat_numeral)
  show ?thesis
    unfolding sweep_hop_def
    using Inr y o5 sent printed failed c
    by (auto simp add: clock_tick Let_def split: sum.splits option.splits if_splits)
qed

lemma sweep_hops_order:
  assumes "\<forall>t. shutdown ev t = (T \<le> t)" "in_order T 2 w"
  shows "(sweep_hops ev sp freqs w = Inr w' \<longrightarrow> in_order T 5 w' \<and> clock w \<le> clock w')
       \<and> (sweep_hops ev sp freqs w = Inl (e, w') \<longrightarrow> in_order T 5 w' \<and> clock w \<le> clock w')"
  using assms(2)
proof (induction freqs arbitrary: w)
  case Nil
  then show ?case by (auto intro: in_order_mono)
next
  case (Cons freq rest)
  show ?case
  proof (cases "sweep_hop ev sp freq w")
    case (Inl x)
    then have eq: "sweep_hops ev sp (freq # rest) w = Inl x" by simp
    show ?thesis
      unfolding eq
      using sweep_hop_order [OF assms(1) Cons.prems, where sp = sp and freq = freq
          and e = e and w' = w'] Inl
      by auto
  next
    case (Inr w1)
    let ?flag = "shutdown ev (clock w1)"
    let ?w2 = "tick (Poll ?flag) w1"
    from sweep_hop_order [OF assms(1) Cons.prems, where sp = sp and freq = freq and w' = w1] Inr
    have o1: "in_order T 5 w1" and c1: "clock w \<le> clock w1" by simp_all
    have o2: "in_order T 5 ?w2" using o1 by (rule in_order_poll)
    have c2: "clock w \<le> clock ?w2" using c1 by (simp add: clock_tick)
    show ?thesis
    proof (cases ?flag)
      case True
      then have "sweep_hops ev sp (freq # rest) w = Inr ?w2" using Inr by (simp add: Let_def)
      then show ?thesis using o2 c2 by auto
    next
      case False
      then have "clock ?w2 \<le> T" using assms(1) by (simp add: clock_tick)
      moreover have "well_timed ?w2" using o2 by (rule in_order_well_timed)
      ultimately have o3: "in_order T 2 ?w2" by (simp add: in_order_early)
      have eq: "sweep_hops ev sp (freq # rest) w = sweep_hops ev sp rest ?w2"
        using Inr False by (simp add: Let_def)
      show ?thesis unfolding eq using Cons.IH [OF o3] c2 by auto
    qed
  qed
qed

lemma sweep_runs_order:
  assumes "\<forall>t. shutdown ev t = (T \<le> t)" "in_order T 5 w" "T \<le> clock w + fuel"
  shows "\<exists>w'. in_order T 5 w'
           \<and> (sweep_runs ev sp freqs runs limit (Suc fuel) run w = Some (Inr w')
               \<or> (\<exists>e. sweep_runs ev sp freqs runs limit (Suc fuel) run w = Some (Inl (e, w'))))"
  using assms(2,3)
proof (induction fuel arbitrary: run w)
  case 0
  then have flag: "shutdown ev (clock w)" using assms(1) by simp
  have "in_order T 5 (tick (Poll True) w)" using "0.prems"(1) by (rule in_order_poll)
  then show ?case using flag by (auto simp add: Let_def)
next
  case (Suc fuel)
  let ?flag = "shutdown ev (clock w)"
  let ?w0 = "tick (Poll ?flag) w"
  let ?w1 = "tick (RunStart (Suc run)) ?w0"
  have o0: "in_order T 5 ?w0" using Suc.prems(1) by (rule in_order_poll)
  show ?case
  proof (cases "\<not> ?flag \<and> (runs = 0 \<or> run < runs)")
    case False
    then have "sweep_runs ev sp freqs runs limit (Suc (Suc fuel)) run w = Some (Inr ?w0)"
      by (auto simp add: Let_def)
    then show ?thesis using o0 by blast
  next
    case True
    then have "clock ?w0 \<le> T" using assms(1) by (simp add: clock_tick)
    moreover have "well_timed ?w0" using o0 by (rule in_order_well_timed)
    ultimately have "in_order T 1 ?w0" by (simp add: in_order_early)
    from in_order_tick [OF this, of "RunStart (Suc run)"]
    have o1: "in_order T 2 ?w1" by (simp add: eval_nat_numeral)
    show ?thesis
    proof (cases "sweep_hops ev sp freqs ?w1")
      case (Inl x)
      obtain e w2 where x: "x = (e, w2)" by (cases x)
      from sweep_hops_order [OF assms(1) o1, where sp = sp and freqs = freqs and e = e
          and w' = w2] Inl x
      have "in_order T 5 w2" by simp
      moreover have "sweep_runs ev sp freqs runs limit (Suc (Suc fuel)) run w = Some (Inl (e, w2))"
        using True Inl x by (simp add: Let_def)
      ultimately show ?thesis by blast
    next
      case (Inr w2)
      from sweep_hops_order [OF assms(1) o1, where sp = sp and freqs = freqs and w' = w2] Inr
      have o2: "in_order T 5 w2" and c2: "clock ?w1 \<le> clock w2" by simp_all
      show ?thesis
      proof (cases "limit \<and> time_exceeded ev (clock w2)")
        case t: True
        then have "sweep_runs ev sp freqs runs limit (Suc (Suc fuel)) run w = Some (Inr w2)"
          using True Inr by (simp add: Let_def)
        then show ?thesis using o2 by blast
      next
        case f: False
        then have eq: "sweep_runs ev sp freqs runs limit (Suc (Suc fuel)) run w
                     = sweep_runs ev sp freqs runs limit (Suc fuel) (Suc run) w2"
          using True Inr by (auto simp add: Let_def)
        have "T \<le> clock w2 + fuel" using c2 Suc.prems(2) by (simp add: clock_tick)
        from Suc.IH [OF o2 this] show ?thesis unfolding eq by blast
      qed
    qed
  qed
qed

lemma strictly_sorted_count:
  fixes xs :: "nat list"
  assumes "sorted_wrt (<) xs"
  shows "length (filter (\<lambda>x. x = k) xs) \<le> 1"
  using assms
proof (induction xs)
  case Nil
  show ?case by simp
next
  case (Cons x xs)
  show ?case
  proof (cases "x = k")
    case True
    then have "\<forall>y\<in>set xs. y \<noteq> k" using Cons.prems by auto
    then have "filter (\<lambda>x. x = k) xs = []" by (simp add: filter_empty_conv)
    then show ?thesis using True by simp
  next
    case False
    then show ?thesis using Cons by simp
  qed
qed

lemma stage_filter:
  assumes "0 < k"
  shows "length (filter (\<lambda>e. stage e = k) es)
       = length (filter (\<lambda>x. x = k) (filter (\<lambda>s. 0 < s) (map stage es)))"
  using assms by (induction es) auto

lemma filter_length_mono:
  assumes "\<And>x. P x \<Longrightarrow> Q x"
  shows "length (filter P xs) \<le> length (filter Q xs)"
  using assms by (induction xs) auto

lemma late_count_once:
  assumes "in_order T k' w" "0 < k" "\<And>e. P e \<Longrightarrow> stage e = k"
  shows "late_count T P w \<le> 1"
proof -
  have "late_count T P w \<le> length (filter (\<lambda>e. stage e = k) (late_events T w))"
    unfolding late_count_def using assms(3) by (rule filter_length_mono)
  also have "\<dots> = length (filter (\<lambda>x. x = k) (late_stages T w))"
    unfolding late_stages_def using assms(2) by (rule stage_filter)
  also have "\<dots> \<le> 1"
  proof (rule strictly_sorted_count)
    show "sorted_wrt (<) (late_stages T w)" using assms(1) by (simp add: in_order_def)
  qed
  finally show ?thesis .
qed

lemma trace_ends_with_stop:
  "trace (tick Stop w) \<noteq> [] \<and> snd (last (trace (tick Stop w))) = Stop"
  by (simp add: trace_tick)

text \<open>
  C9, as the code has it. The flag is read before each run, after each repeat and after
  each hop, and nowhere else. When the signal handler sets it just before program point
  \<open>T\<close>, \<open>sweep\<close> ends (fuel above \<open>T\<close> is enough), and from \<open>T\<close> on it starts at
  most one run, at most one hop and at most one read of the buffer, and sends at most one
  record: those whose test of the flag came before \<open>T\<close>. Whenever \<open>setup\<close> has gone
  through, the last event is the call of \<open>stop\<close>. The tune delay, which reads the wall
  clock only, is taken to end.
\<close>

theorem shutdown_bounded:
  assumes "\<forall>t. shutdown ev t = (T \<le> t)" and "T < fuel"
  shows "\<exists>res w. sweep ev rate thresh min_freq max_freq bins repeats runs limit overlap lnb_lo
                    max_buffer_size fuel = Some (res, w)
           \<and> late_count T is_RunStart w \<le> 1 \<and> late_count T is_Hop w \<le> 1
           \<and> late_count T is_Acquire w \<le> 1 \<and> late_count T is_Sent w \<le> 1
           \<and> ((\<exists>e. create_buffer rate bins repeats (base_buffer_len ev) max_buffer_size = Inl e)
               \<or> (trace w \<noteq> [] \<and> snd (last (trace w)) = Stop))"
proof -
  have counts: "late_count T is_RunStart w \<le> 1 \<and> late_count T is_Hop w \<le> 1
           \<and> late_count T is_Acquire w \<le> 1 \<and> late_count T is_Sent w \<le> 1"
    if "in_order T k w" for k w
  proof -
    have "late_count T is_RunStart w \<le> 1"
      using that by (rule late_count_once [where k = 1]) (auto simp add: is_RunStart_def)
    moreover have "late_count T is_Hop w \<le> 1"
      using that by (rule late_count_once [where k = 2]) (auto simp add: is_Hop_def)
    moreover have "late_count T is_Acquire w \<le> 1"
      using that by (rule late_count_once [where k = 3]) (auto simp add: is_Acquire_def)
    moreover have "late_count T is_Sent w \<le> 1"
      using that by (rule late_count_once [where k = 4]) (auto simp add: is_Sent_def)
    ultimately show ?thesis by simp
  qed
  obtain fuel' where fuel: "fuel = Suc fuel'" "T \<le> fuel'"
    using assms(2) by (cases fuel) auto
  show ?thesis
  proof (cases "create_buffer rate bins repeats (base_buffer_len ev) max_buffer_size")
    case (Inl e)
    then have "sweep ev rate thresh min_freq max_freq bins repeats runs limit overlap lnb_lo
                 max_buffer_size fuel = Some (Some e, initial_world)"
      by (simp add: sweep_def)
    then show ?thesis using counts [OF in_order_initial [of T 1]] Inl by blast
  next
    case (Inr size)
    obtain brepeats bsize where size: "size = (brepeats, bsize)" by (cases size)
    let ?sp = "\<lparr>sp_sample_rate = rate, sp_threshold = thresh, sp_buffer_repeats = nat brepeats\<rparr>"
    have nocb: "\<not> (\<exists>e. create_buffer rate bins repeats (base_buffer_len ev) max_buffer_size = Inl e)"
      using Inr by simp
    show ?thesis
    proof (cases "freq_plan rate (min_freq - lnb_lo) (max_freq - lnb_lo) bins overlap")
      case (Inl e)
      then have s: "sweep ev rate thresh min_freq max_freq bins repeats runs limit overlap lnb_lo
                 max_buffer_size fuel = Some (Some UnboundLocalError, tick Stop initial_world)"
        using Inr size by (simp add: sweep_def)
      have "in_order T 6 (tick Stop initial_world)"
        using in_order_tick [OF in_order_initial [of T 5], of Stop] by (simp add: eval_nat_numeral)
      from counts [OF this] s trace_ends_with_stop [of initial_world] show ?thesis by blast
    next
      case fp: (Inr freq_list)
      have "T \<le> clock initial_world + fuel'" using fuel(2) by simp
      from sweep_runs_order [OF assms(1) in_order_initial this, where sp = ?sp
          and freqs = freq_list and runs = runs and limit = limit and run = 0]
      obtain w' where o: "in_order T 5 w'"
        and r: "sweep_runs ev ?sp freq_list runs limit fuel 0 initial_world = Some (Inr w')
               \<or> (\<exists>e. sweep_runs ev ?sp freq_list runs limit fuel 0 initial_world
                        = Some (Inl (e, w')))"
        unfolding fuel(1) by blast
      have "in_order T 6 (tick Stop w')"
        using in_order_tick [OF o, of Stop] by (simp add: eval_nat_numeral)
      note c = counts [OF this]
      from r have "\<exists>res. sweep ev rate thresh min_freq max_freq bins repeats runs limit overlap
                 lnb_lo max_buffer_size fuel = Some (res, tick Stop w')"
        using Inr size fp by (auto simp add: sweep_def)
      then show ?thesis using c trace_ends_with_stop [of w'] by blast
    qed
  qed
qed

lemma acquire_silence:
  "acquire 2 freq 400000 t silence
     \<lparr>h_absThreshold = initial_threshold (- 90), h_signal = initial_signal, h_psd_state = []\<rparr>
   = Inr \<lparr>h_absThreshold = 0, h_signal = initial_signal, h_psd_state = []\<rparr>"
  by (simp add: acquire_def update_threshold_def noise_of_def np_mean_def iq_of_def silence_def
        detect_def np_max_def initial_threshold_def powr_neg_numeral Let_def)

lemma sweep_signal_at_2:
  "sweep signal_at_2 400000 (- 90) 100000000 100800000 9 1 0 False 0 0 0 3
    = Some (None,
        \<lparr>clock = 8,
         trace = [(0, Poll False), (1, RunStart 1), (2, Hop 100200000), (3, Acquire 0),
                  (4, Poll True), (5, Poll True), (6, Poll True), (7, Stop)],
         count = 0\<rparr>)"
proof -
  have cb: "create_buffer 400000 9 1 (base_buffer_len signal_at_2) 0 = Inr (1, 9)"
    by (simp add: signal_at_2_def create_buffer_small)
  have flag: "shutdown signal_at_2 t = (2 \<le> t)" for t
    by (simp add: signal_at_2_def)
  have buf: "read_stream_into_buffer signal_at_2 t = silence" for t
    by (simp add: signal_at_2_def)
  have quiet: "sig_start initial_signal = - 1"
    by (simp add: initial_signal_def)
  show ?thesis
    unfolding sweep_def cb
    by (simp add: freq_plan_two_hops numeral_3_eq_3 sweep_hop_def psd_def min_burst_2
          flag buf quiet acquire_silence tick_def initial_world_def Let_def)
qed

theorem shutdown_bounded_witness:
  "(\<forall>t. shutdown signal_at_2 t = (2 \<le> t))
   \<and> sweep signal_at_2 400000 (- 90) 100000000 100800000 9 1 0 False 0 0 0 3
    = Some (None,
        \<lparr>clock = 8,
         trace = [(0, Poll False), (1, RunStart 1), (2, Hop 100200000), (3, Acquire 0),
                  (4, Poll True), (5, Poll True), (6, Poll True), (7, Stop)],
         count = 0\<rparr>)
   \<and> late_count 2 is_Hop
        \<lparr>clock = 8,
         trace = [(0, Poll False), (1, RunStart 1), (2, Hop 100200000), (3, Acquire 0),
                  (4, Poll True), (5, Poll True), (6, Poll True), (7, Stop)],
         count = 0\<rparr> \<le> 1"
proof -
  have flag: "\<forall>t. shutdown signal_at_2 t = (2 \<le> t)"
    by (simp add: signal_at_2_def)
  have fuel: "(2::nat) < 3" by simp
  from shutdown_bounded [OF flag fuel, of 400000 "- 90" 100000000 100800000 9 1 0 False 0 0 0]
    sweep_signal_at_2 flag
  show ?thesis by auto
qed

text \<open>
  C9, as the claim states it, fails: the flag is still clear at program point 1 and set
  at program point 2, after the test of the loop condition and before the first call of
  \<open>psd\<close>; the hop at 100.2 MHz starts at program point 2 and its buffer is read at
  program point 3, with the flag set.
\<close>

theorem hop_after_shutdown_counterexample:
  "\<not> shutdown signal_at_2 1 \<and> shutdown signal_at_2 2
   \<and> sweep signal_at_2 400000 (- 90) 100000000 100800000 9 1 0 False 0 0 0 3
    = Some (None,
        \<lparr>clock = 8,
         trace = [(0, Poll False), (1, RunStart 1), (2, Hop 100200000), (3, Acquire 0),
                  (4, Poll True), (5, Poll True), (6, Poll True), (7, Stop)],
         count = 0\<rparr>)
   \<and> late_events 2
        \<lparr>clock = 8,
         trace = [(0, Poll False), (1, RunStart 1), (2, Hop 100200000), (3, Acquire 0),
                  (4, Poll True), (5, Poll True), (6, Poll True), (7, Stop)],
         count = 0\<rparr>
      = [Hop 100200000, Acquire 0, Poll True, Poll True, Poll True, Stop]"
proof -
  have "\<not> shutdown signal_at_2 1" "shutdown signal_at_2 2"
    by (simp_all add: signal_at_2_def)
  then show ?thesis using sweep_signal_at_2 by (simp add: late_events_def)
qed

end
